theory Spec2Isabelle
  imports Main "HOL-Library.Word"
begin

unbundle bit_operations_syntax

section \<open>Data model\<close>

text \<open>
  The program is \<^verbatim>\<open>src/sha-256.py\<close>.  Python integers are unbounded, so every
  integer of the program is an \<^typ>\<open>int\<close> and every mask \<^verbatim>\<open>& 0xFFFFFFFF\<close> is written
  out.  A \<^verbatim>\<open>bytes\<close> object is a list of 8-bit words.  Every exception the
  interpreter can raise on the modelled paths is a value of \<open>error\<close>.
\<close>

datatype error = ValueError | IndexError | OverflowError | TypeError

type_synonym byte = "8 word"

type_synonym working = "int \<times> int \<times> int \<times> int \<times> int \<times> int \<times> int \<times> int"

definition bindE :: "error + 'a \<Rightarrow> ('a \<Rightarrow> error + 'b) \<Rightarrow> error + 'b" where
  "bindE m f = (case m of Inl e \<Rightarrow> Inl e | Inr v \<Rightarrow> f v)"

text \<open>A \<^verbatim>\<open>for\<close> loop whose body may raise: the first exception ends the loop.\<close>

fun foldE :: "('a \<Rightarrow> 's \<Rightarrow> error + 's) \<Rightarrow> 'a list \<Rightarrow> 's \<Rightarrow> error + 's" where
  "foldE f [] s = Inr s"
| "foldE f (x # xs) s = bindE (f x s) (foldE f xs)"

text \<open>\<^verbatim>\<open>xs[i]\<close> for a non-negative index: IndexError when out of range.\<close>

definition idx :: "'a list \<Rightarrow> nat \<Rightarrow> error + 'a" where
  "idx xs i = (if i < length xs then Inr (xs ! i) else Inl IndexError)"

text \<open>\<^verbatim>\<open>range(start, stop, step)\<close> for the positive literal steps of the program.\<close>

definition range3 :: "nat \<Rightarrow> nat \<Rightarrow> nat \<Rightarrow> nat list" where
  "range3 start stop step =
     map (\<lambda>k. start + k * step) [0..<(stop - start + step - 1) div step]"

text \<open>\<^verbatim>\<open>xs[i:j]\<close> for non-negative bounds: slicing clamps and never raises.\<close>

definition py_slice :: "'a list \<Rightarrow> nat \<Rightarrow> nat \<Rightarrow> 'a list" where
  "py_slice xs i j = take (j - i) (drop i xs)"

text \<open>\<^verbatim>\<open>x >> n\<close> and \<^verbatim>\<open>x << n\<close>: a negative shift count raises ValueError.\<close>

definition rshift :: "int \<Rightarrow> int \<Rightarrow> error + int" where
  "rshift x n = (if n < 0 then Inl ValueError else Inr (drop_bit (nat n) x))"

definition lshift :: "int \<Rightarrow> int \<Rightarrow> error + int" where
  "lshift x n = (if n < 0 then Inl ValueError else Inr (push_bit (nat n) x))"

text \<open>\<^verbatim>\<open>int.from_bytes(bs, 'big')\<close> and \<^verbatim>\<open>n.to_bytes(len, 'big')\<close>.\<close>

definition from_bytes_big :: "byte list \<Rightarrow> int" where
  "from_bytes_big bs = foldl (\<lambda>acc b. acc * 256 + uint b) 0 bs"

definition to_bytes_big :: "int \<Rightarrow> nat \<Rightarrow> error + byte list" where
  "to_bytes_big n len =
     (if n < 0 \<or> 256 ^ len \<le> n then Inl OverflowError
      else Inr (map (\<lambda>i. word_of_int (n div 256 ^ (len - 1 - i))) [0..<len]))"

section \<open>Logical functions (lines 6 to 56)\<close>

text \<open>
  Line 11 is \<^verbatim>\<open>(x >> n) | (x << (32 - n)) & 0xFFFFFFFF\<close>; in Python \<^verbatim>\<open>&\<close> binds
  tighter than \<^verbatim>\<open>|\<close>, so the mask applies to the left-shifted half only.
\<close>

definition rotr :: "int \<Rightarrow> int \<Rightarrow> error + int" where
  "rotr x n =
     bindE (rshift x n) (\<lambda>lo.
     bindE (lshift x (32 - n)) (\<lambda>hi.
       Inr (lo OR (hi AND 0xFFFFFFFF))))"

definition shr :: "int \<Rightarrow> int \<Rightarrow> error + int" where
  "shr x n = rshift x n"

definition ch :: "int \<Rightarrow> int \<Rightarrow> int \<Rightarrow> int" where
  "ch x y z = ((x AND y) XOR ((NOT x) AND z))"

definition maj :: "int \<Rightarrow> int \<Rightarrow> int \<Rightarrow> int" where
  "maj x y z = (((x AND y) XOR (x AND z)) XOR (y AND z))"

definition sigma0_256 :: "int \<Rightarrow> error + int" where
  "sigma0_256 x =
     bindE (rotr x 2) (\<lambda>r1. bindE (rotr x 13) (\<lambda>r2. bindE (rotr x 22) (\<lambda>r3.
       Inr ((r1 XOR r2) XOR r3))))"

definition sigma1_256 :: "int \<Rightarrow> error + int" where
  "sigma1_256 x =
     bindE (rotr x 6) (\<lambda>r1. bindE (rotr x 11) (\<lambda>r2. bindE (rotr x 25) (\<lambda>r3.
       Inr ((r1 XOR r2) XOR r3))))"

definition sigma0_256_small :: "int \<Rightarrow> error + int" where
  "sigma0_256_small x =
     bindE (rotr x 7) (\<lambda>r1. bindE (rotr x 18) (\<lambda>r2. bindE (shr x 3) (\<lambda>r3.
       Inr ((r1 XOR r2) XOR r3))))"

definition sigma1_256_small :: "int \<Rightarrow> error + int" where
  "sigma1_256_small x =
     bindE (rotr x 17) (\<lambda>r1. bindE (rotr x 19) (\<lambda>r2. bindE (shr x 10) (\<lambda>r3.
       Inr ((r1 XOR r2) XOR r3))))"

section \<open>Constants (lines 59 to 68 and 105 to 108)\<close>

definition K_256 :: "int list" where
  "K_256 = [
    0x428A2F98, 0x71374491, 0xB5C0FBCF, 0xE9B5DBA5, 0x3956C25B, 0x59F111F1, 0x923F82A4, 0xAB1C5ED5,
    0xD807AA98, 0x12835B01, 0x243185BE, 0x550C7DC3, 0x72BE5D74, 0x80DEB1FE, 0x9BDC06A7, 0xC19BF174,
    0xE49B69C1, 0xEFBE4786, 0x0FC19DC6, 0x240CA1CC, 0x2DE92C6F, 0x4A7484AA, 0x5CB0A9DC, 0x76F988DA,
    0x983E5152, 0xA831C66D, 0xB00327C8, 0xBF597FC7, 0xC6E00BF3, 0xD5A79147, 0x06CA6351, 0x14292967,
    0x27B70A85, 0x2E1B2138, 0x4D2C6DFC, 0x53380D13, 0x650A7354, 0x766A0ABB, 0x81C2C92E, 0x92722C85,
    0xA2BFE8A1, 0xA81A664B, 0xC24B8B70, 0xC76C51A3, 0xD192E819, 0xD6990624, 0xF40E3585, 0x106AA070,
    0x19A4C116, 0x1E376C08, 0x2748774C, 0x34B0BCB5, 0x391C0CB3, 0x4ED8AA4A, 0x5B9CCA4F, 0x682E6FF3,
    0x748F82EE, 0x78A5636F, 0x84C87814, 0x8CC70208, 0x90BEFFFA, 0xA4506CEB, 0xBEF9A3F7, 0xC67178F2]"

definition H_init :: "int list" where
  "H_init = [
    0x6A09E667, 0xBB67AE85, 0x3C6EF372, 0xA54FF53A,
    0x510E527F, 0x9B05688C, 0x1F83D9AB, 0x5BE0CD19]"

section \<open>Padding (lines 70 to 82)\<close>

text \<open>The \<^verbatim>\<open>while\<close> loop of lines 77 and 78.\<close>

definition pad_gap :: "nat \<Rightarrow> nat" where
  "pad_gap n = (if n mod 64 \<le> 56 then 56 - n mod 64 else 120 - n mod 64)"

function pad_loop :: "byte list \<Rightarrow> byte list" where
  "pad_loop padded_message =
     (if (length padded_message * 8) mod 512 \<noteq> 448
      then pad_loop (padded_message @ [0x00])
      else padded_message)"
  by pat_completeness auto
termination
proof (relation "measure (\<lambda>p. pad_gap (length p))")
  show "wf (measure (\<lambda>p. pad_gap (length p)))" by simp
next
  fix padded_message :: "byte list"
  assume a: "(length padded_message * 8) mod 512 \<noteq> 448"
  define r where "r = length padded_message mod 64"
  have "(length padded_message * 8) mod 512 = 8 * r"
    using mult_mod_right [of 8 "length padded_message" 64]
    by (simp add: mult.commute r_def)
  with a have d: "r \<noteq> 56" by auto
  have b: "r < 64" by (simp add: r_def)
  have c: "Suc (length padded_message) mod 64 = (if Suc r = 64 then 0 else Suc r)"
    by (simp add: mod_Suc r_def)
  have "(if (if Suc r = 64 then 0 else Suc r) \<le> 56
         then 56 - (if Suc r = 64 then 0 else Suc r)
         else 120 - (if Suc r = 64 then 0 else Suc r))
        < (if r \<le> 56 then 56 - r else 120 - r)"
    using b d by (auto split: if_splits)
  then have "pad_gap (Suc (length padded_message)) < pad_gap (length padded_message)"
    unfolding pad_gap_def c r_def [symmetric] .
  then show "(padded_message @ [0x00], padded_message) \<in> measure (\<lambda>p. pad_gap (length p))"
    by simp
qed

declare pad_loop.simps [simp del]

definition padding :: "byte list \<Rightarrow> error + byte list" where
  "padding message_bytes =
     (let message_bit_length = int (length message_bytes) * 8;
          padded_message = pad_loop (message_bytes @ [0x80])
      in bindE (to_bytes_big message_bit_length 8) (\<lambda>length_bytes.
           Inr (padded_message @ length_bytes)))"

section \<open>Block parsing (lines 84 to 99)\<close>

definition parse_message :: "byte list \<Rightarrow> int list list" where
  "parse_message padded_message =
     map (\<lambda>i. let block = py_slice padded_message i (i + 64)
               in map (\<lambda>j. from_bytes_big (py_slice block j (j + 4))) (range3 0 64 4))
         (range3 0 (length padded_message) 64)"

section \<open>Hash computation (lines 101 to 139)\<close>

text \<open>Lines 113 to 115: one pass of the schedule loop, for \<open>t\<close> from 16 to 63.\<close>

definition schedule_step :: "nat \<Rightarrow> int list \<Rightarrow> error + int list" where
  "schedule_step t w =
     bindE (idx w (t - 15)) (\<lambda>w15. bindE (sigma0_256_small w15) (\<lambda>s0.
     bindE (idx w (t - 2)) (\<lambda>w2. bindE (sigma1_256_small w2) (\<lambda>s1.
     bindE (idx w (t - 16)) (\<lambda>w16. bindE (idx w (t - 7)) (\<lambda>w7.
       Inr (w @ [(w16 + s0 + w7 + s1) AND 0xFFFFFFFF])))))))"

text \<open>Line 117: unpacking a list into eight names raises ValueError on any other length.\<close>

fun unpack8 :: "int list \<Rightarrow> error + working" where
  "unpack8 [a, b, c, d, e, f, g, h_temp] = Inr (a, b, c, d, e, f, g, h_temp)"
| "unpack8 _ = Inl ValueError"

text \<open>
  Lines 120 to 134: one round.  An assignment of a value that cannot raise is written
  \<open>bindE (Inr v) (\<lambda>name. \<dots>)\<close>, so that every name is bound once, in the order of the
  source lines.
\<close>

fun round_step :: "int list \<Rightarrow> nat \<Rightarrow> working \<Rightarrow> error + working" where
  "round_step w t (a, b, c, d, e, f, g, h_temp) =
     bindE (sigma1_256 e) (\<lambda>s1.
     bindE (Inr (ch e f g)) (\<lambda>ch_val.
     bindE (idx K_256 t) (\<lambda>k.
     bindE (idx w t) (\<lambda>wt.
     bindE (Inr ((h_temp + s1 + ch_val + k + wt) AND 0xFFFFFFFF)) (\<lambda>temp1.
     bindE (sigma0_256 a) (\<lambda>s0.
     bindE (Inr (maj a b c)) (\<lambda>maj_val.
     bindE (Inr ((s0 + maj_val) AND 0xFFFFFFFF)) (\<lambda>temp2.
       Inr ((temp1 + temp2) AND 0xFFFFFFFF, a, b, c,
            (d + temp1) AND 0xFFFFFFFF, e, f, g)))))))))"

text \<open>Lines 136 and 137: the state is updated in place, index by index.\<close>

fun add_back :: "int list \<Rightarrow> working \<Rightarrow> int list" where
  "add_back h (a, b, c, d, e, f, g, h_temp) =
     fold (\<lambda>i h. h[i := (h ! i + [a, b, c, d, e, f, g, h_temp] ! i) AND 0xFFFFFFFF])
       [0..<8] h"

text \<open>Lines 111 to 137: the body of the loop over the blocks.\<close>

definition block_body :: "int list \<Rightarrow> int list \<Rightarrow> error + int list" where
  "block_body h block =
     bindE (foldE schedule_step [16..<64] block) (\<lambda>w.
     bindE (unpack8 h) (\<lambda>vars.
     bindE (foldE (round_step w) [0..<64] vars) (\<lambda>vars'.
       Inr (add_back h vars'))))"

text \<open>
  Lines 110 to 139.  The \<^verbatim>\<open>return h\<close> of line 139 is indented into the body of the
  loop over the blocks, so the function returns at the end of the first pass; when there
  is no block the loop body never runs and the function falls off its end, returning
  \<^verbatim>\<open>None\<close>.
\<close>

fun block_loop :: "int list \<Rightarrow> int list list \<Rightarrow> error + int list option" where
  "block_loop h [] = Inr None"
| "block_loop h (block # rest) = bindE (block_body h block) (\<lambda>h'. Inr (Some h'))"

definition sha256_hash_computation :: "int list list \<Rightarrow> error + int list option" where
  "sha256_hash_computation message_blocks = block_loop H_init message_blocks"

section \<open>Digest formatting and the driver (lines 141 to 146)\<close>

definition hex_digit :: "nat \<Rightarrow> char" where
  "hex_digit d = ''0123456789abcdef'' ! d"

function hex_of_nat :: "nat \<Rightarrow> string" where
  "hex_of_nat n =
     (if n < 16 then [hex_digit n] else hex_of_nat (n div 16) @ [hex_digit (n mod 16)])"
  by pat_completeness auto
termination
  by (relation "measure id") auto

declare hex_of_nat.simps [simp del]

text \<open>The format \<^verbatim>\<open>f'{x:08x}'\<close>: lowercase hex, zero-filled to width 8, sign first.\<close>

definition fmt08x :: "int \<Rightarrow> string" where
  "fmt08x x =
     (if x < 0
      then (let ds = hex_of_nat (nat (- x)) in CHR ''-'' # replicate (7 - length ds) CHR ''0'' @ ds)
      else (let ds = hex_of_nat (nat x) in replicate (8 - length ds) CHR ''0'' @ ds))"

text \<open>
  Lines 141 to 146, for a \<^verbatim>\<open>bytes\<close> argument.  (A \<^verbatim>\<open>str\<close> argument, which is what
  \<^verbatim>\<open>test_sha256\<close> passes, cannot be concatenated with the byte \<open>0x80\<close> on line 76; the
  type \<open>byte list\<close> leaves it out.)  On line 146, iterating over \<^verbatim>\<open>None\<close> raises
  TypeError.
\<close>

definition sha256 :: "byte list \<Rightarrow> error + string" where
  "sha256 message =
     bindE (padding message) (\<lambda>padded_message.
     bindE (Inr (parse_message padded_message)) (\<lambda>message_blocks.
     bindE (sha256_hash_computation message_blocks) (\<lambda>final_hash.
       case final_hash of
         None \<Rightarrow> Inl TypeError
       | Some hs \<Rightarrow> Inr (concat (map fmt08x hs)))))"

section \<open>The compression step as the specification words it\<close>

text \<open>
  These definitions follow the specification, not the program: a Word is an integer
  \<open>x\<close> with \<open>0 \<le> x < 2 ^ 32\<close>, the rotation is masked as a whole, every sum is taken
  modulo \<open>2 ^ 32\<close>.  They are compared with the program's loop body below.
\<close>

definition word32 :: "int \<Rightarrow> bool" where
  "word32 x \<longleftrightarrow> 0 \<le> x \<and> x < 2 ^ 32"

definition spec_rotr :: "int \<Rightarrow> nat \<Rightarrow> int" where
  "spec_rotr x n = (drop_bit n x OR push_bit (32 - n) x) mod 2 ^ 32"

definition spec_sigma0_small :: "int \<Rightarrow> int" where
  "spec_sigma0_small x = (spec_rotr x 7 XOR spec_rotr x 18) XOR drop_bit 3 x"

definition spec_sigma1_small :: "int \<Rightarrow> int" where
  "spec_sigma1_small x = (spec_rotr x 17 XOR spec_rotr x 19) XOR drop_bit 10 x"

definition spec_Sigma0 :: "int \<Rightarrow> int" where
  "spec_Sigma0 x = (spec_rotr x 2 XOR spec_rotr x 13) XOR spec_rotr x 22"

definition spec_Sigma1 :: "int \<Rightarrow> int" where
  "spec_Sigma1 x = (spec_rotr x 6 XOR spec_rotr x 11) XOR spec_rotr x 25"

definition spec_Ch :: "int \<Rightarrow> int \<Rightarrow> int \<Rightarrow> int" where
  "spec_Ch x y z = (x AND y) XOR (NOT x AND z)"

definition spec_Maj :: "int \<Rightarrow> int \<Rightarrow> int \<Rightarrow> int" where
  "spec_Maj x y z = ((x AND y) XOR (x AND z)) XOR (y AND z)"

fun spec_round :: "int list \<Rightarrow> int list \<Rightarrow> nat \<Rightarrow> working \<Rightarrow> working" where
  "spec_round K W t (a, b, c, d, e, f, g, h) =
     (let T1 = (h + spec_Sigma1 e + spec_Ch e f g + K ! t + W ! t) mod 2 ^ 32;
          T2 = (spec_Sigma0 a + spec_Maj a b c) mod 2 ^ 32
      in ((T1 + T2) mod 2 ^ 32, a, b, c, (d + T1) mod 2 ^ 32, e, f, g))"

definition spec_rounds :: "int list \<Rightarrow> int list \<Rightarrow> working \<Rightarrow> working" where
  "spec_rounds K W v = fold (spec_round K W) [0..<64] v"

fun spec_next_state :: "int list \<Rightarrow> working \<Rightarrow> int list" where
  "spec_next_state state (a, b, c, d, e, f, g, h) =
     map (\<lambda>i. (state ! i + [a, b, c, d, e, f, g, h] ! i) mod 2 ^ 32) [0..<8]"

definition seed :: "int list \<Rightarrow> working" where
  "seed state = (state ! 0, state ! 1, state ! 2, state ! 3, state ! 4, state ! 5, state ! 6, state ! 7)"

fun working_ok :: "working \<Rightarrow> bool" where
  "working_ok (a, b, c, d, e, f, g, h) \<longleftrightarrow>
     word32 a \<and> word32 b \<and> word32 c \<and> word32 d \<and> word32 e \<and> word32 f \<and> word32 g \<and> word32 h"

text \<open>
  The schedule of the specification: \<open>n\<close> words, the first 16 those of the block, each
  later one given by the recurrence on the earlier ones.
\<close>

definition sched_inv :: "int list \<Rightarrow> nat \<Rightarrow> int list \<Rightarrow> bool" where
  "sched_inv block n W \<longleftrightarrow>
     length W = n \<and> (\<forall>x\<in>set W. word32 x) \<and> (\<forall>t<16. W ! t = block ! t) \<and>
     (\<forall>t. 16 \<le> t \<and> t < n \<longrightarrow>
        W ! t = (W ! (t - 16) + spec_sigma0_small (W ! (t - 15)) + W ! (t - 7)
                 + spec_sigma1_small (W ! (t - 2))) mod 2 ^ 32)"

text \<open>
  The length field of the specification: the bit length \<open>8 * n\<close> of an \<open>n\<close>-byte message
  as 8 bytes, most significant first.
\<close>

definition length_field :: "nat \<Rightarrow> byte list" where
  "length_field n = map (\<lambda>i. word_of_int (int n * 8 div 256 ^ (7 - i))) [0..<8]"

text \<open>
  The digest text of the specification: each state word as 8 lowercase hex digits, most
  significant digit first.  \<open>hex_fixed k\<close> is the same at any width \<open>k\<close>.
\<close>

definition spec_hex8 :: "int \<Rightarrow> string" where
  "spec_hex8 w = map (\<lambda>i. hex_digit (nat w div 16 ^ (7 - i) mod 16)) [0..<8]"

definition hex_fixed :: "nat \<Rightarrow> nat \<Rightarrow> string" where
  "hex_fixed k n = map (\<lambda>i. hex_digit (n div 16 ^ (k - 1 - i) mod 16)) [0..<k]"

text \<open>
  The driver of the specification: the compression step folded over all the blocks in
  order, from the initial hash values, each block's output state the next one's input.
\<close>

definition spec_fold_blocks :: "int list list \<Rightarrow> error + int list" where
  "spec_fold_blocks blocks = foldE (\<lambda>block h. block_body h block) blocks H_init"

section \<open>Test messages\<close>

text \<open>
  The bytes of \<^verbatim>\<open>abc\<close>, and of the 56-byte message
  \<^verbatim>\<open>abcdbcdecdefdefgefghfghighijhijkijkljklmklmnlmnomnopnopq\<close> whose padded form has
  two blocks.
\<close>

definition msg_abc :: "byte list" where
  "msg_abc =
     [0x61, 0x62, 0x63]"

definition msg_nist56 :: "byte list" where
  "msg_nist56 =
     [0x61, 0x62, 0x63, 0x64, 0x62, 0x63, 0x64, 0x65, 0x63, 0x64, 0x65, 0x66, 0x64, 0x65,
      0x66, 0x67, 0x65, 0x66, 0x67, 0x68, 0x66, 0x67, 0x68, 0x69, 0x67, 0x68, 0x69, 0x6A,
      0x68, 0x69, 0x6A, 0x6B, 0x69, 0x6A, 0x6B, 0x6C, 0x6A, 0x6B, 0x6C, 0x6D, 0x6B, 0x6C,
      0x6D, 0x6E, 0x6C, 0x6D, 0x6E, 0x6F, 0x6D, 0x6E, 0x6F, 0x70, 0x6E, 0x6F, 0x70, 0x71]"

section \<open>Basic facts\<close>

lemma bindE_Inr [simp]: "bindE (Inr v) f = f v"
  by (simp add: bindE_def)

lemma bindE_Inl [simp]: "bindE (Inl e) f = Inl e"
  by (simp add: bindE_def)

lemma bindE_weak_cong: "m = m' \<Longrightarrow> bindE m f = bindE m' f"
  by simp

lemma mask32: "(0xFFFFFFFF :: int) = mask 32"
  by (simp add: mask_eq_exp_minus_1)

lemma and_mask32: "x AND (0xFFFFFFFF :: int) = x mod 2 ^ 32"
  by (simp only: mask32 take_bit_eq_mask [symmetric] take_bit_eq_mod)

lemma word_bits_above: "0 \<le> x \<Longrightarrow> x < 2 ^ 32 \<Longrightarrow> bit x j \<Longrightarrow> j < 32" for x :: int
proof (rule ccontr)
  assume a: "0 \<le> x" "x < 2 ^ 32" "bit x j" "\<not> j < 32"
  then have "take_bit 32 x = x" by (simp add: take_bit_int_eq_self)
  then have "bit (take_bit 32 x) j" using a by simp
  with a show False by (simp add: bit_take_bit_iff)
qed

lemma rotr_value:
  "0 \<le> n \<Longrightarrow> n \<le> 32 \<Longrightarrow>
   rotr x n = Inr (drop_bit (nat n) x OR (push_bit (nat (32 - n)) x AND 0xFFFFFFFF))"
  by (simp add: rotr_def rshift_def lshift_def)

lemma take_bit_drop_bit_word:
  "0 \<le> x \<Longrightarrow> x < 2 ^ 32 \<Longrightarrow> take_bit 32 (drop_bit k x) = drop_bit k x" for x :: int
  by (rule bit_eqI) (auto simp add: bit_take_bit_iff bit_drop_bit_eq dest: word_bits_above)

lemma rotr_mod:
  "0 \<le> x \<Longrightarrow> x < 2 ^ 32 \<Longrightarrow>
   drop_bit k x OR (push_bit m x AND 0xFFFFFFFF) = (drop_bit k x OR push_bit m x) mod 2 ^ 32"
  for x :: int
  by (simp only: mask32 take_bit_eq_mask [symmetric] take_bit_eq_mod [symmetric] take_bit_or
      take_bit_drop_bit_word)

lemma rotr_bits:
  fixes x :: int
  assumes "0 \<le> x" "x < 2 ^ 32" "k \<le> 32" "i < 32"
  shows "bit (drop_bit k x OR (push_bit (32 - k) x AND 0xFFFFFFFF)) i = bit x ((i + k) mod 32)"
proof (cases "i + k < 32")
  case True
  then have "\<not> 32 - k \<le> i" by simp
  with True show ?thesis
    by (simp add: mask32 take_bit_eq_mask [symmetric] bit_or_iff bit_drop_bit_eq
        bit_push_bit_iff bit_take_bit_iff add.commute)
next
  case False
  then have a: "\<not> bit x (k + i)" using word_bits_above [OF assms(1,2), of "k + i"] by auto
  from False assms have b: "(i + k) mod 32 = i - (32 - k)"
    by (simp add: mod_if)
  from False assms have c: "32 - k \<le> i" by simp
  show ?thesis
    using a c assms(4)
    by (simp add: mask32 take_bit_eq_mask [symmetric] bit_or_iff bit_drop_bit_eq
        bit_push_bit_iff bit_take_bit_iff b)
qed

lemma word_range_and: "0 \<le> x AND (0xFFFFFFFF::int) \<and> x AND (0xFFFFFFFF::int) < 2 ^ 32"
  by (simp add: and_mask32)

lemma rotr_range:
  "0 \<le> drop_bit k x OR (push_bit m x AND 0xFFFFFFFF) \<and>
   drop_bit k x OR (push_bit m x AND 0xFFFFFFFF) < 2 ^ 32"
  if "0 \<le> x" "x < 2 ^ 32" for x :: int
  using that by (simp add: rotr_mod)

section \<open>Rotation and shift\<close>

text \<open>
  Claim C6.  For a 32-bit value \<open>x\<close> (\<open>0 \<le> x < 2 ^ 32\<close>) and a count \<open>n\<close> from 1 to 31,
  \<open>rotr x n\<close> returns the circular right rotation \<open>((x >> n) | (x << (32 - n))) mod 2 ^ 32\<close>:
  the result is again a 32-bit value and bit \<open>i\<close> of it is bit \<open>(i + n) mod 32\<close> of \<open>x\<close>, so no
  bit is lost; \<open>shr x n\<close> returns the plain shift \<open>x >> n\<close>, that is \<open>x div 2 ^ n\<close>, whose
  bit \<open>i\<close> is bit \<open>i + n\<close> of \<open>x\<close>: the low \<open>n\<close> bits are gone.
\<close>

theorem rotr_is_circular_rotation:
  assumes "0 \<le> x" and "x < 2 ^ 32" and "1 \<le> n" and "n \<le> 31"
  shows "\<exists>r. rotr x n = Inr r
           \<and> r = (drop_bit (nat n) x OR push_bit (nat (32 - n)) x) mod 2 ^ 32
           \<and> 0 \<le> r \<and> r < 2 ^ 32
           \<and> (\<forall>i<32. bit r i = bit x ((i + nat n) mod 32))
           \<and> shr x n = Inr (drop_bit (nat n) x)
           \<and> drop_bit (nat n) x = x div 2 ^ nat n
           \<and> (\<forall>i. bit (drop_bit (nat n) x) i = bit x (i + nat n))"
proof -
  have v: "rotr x n = Inr (drop_bit (nat n) x OR (push_bit (nat (32 - n)) x AND 0xFFFFFFFF))"
    using assms by (simp add: rotr_value)
  have k: "nat (32 - n) = 32 - nat n" "nat n \<le> 32" using assms by simp_all
  have b: "\<forall>i<32. bit (drop_bit (nat n) x OR (push_bit (nat (32 - n)) x AND 0xFFFFFFFF)) i
            = bit x ((i + nat n) mod 32)"
    using rotr_bits [OF assms(1,2) k(2)] by (simp add: k)
  have s: "shr x n = Inr (drop_bit (nat n) x)"
    using assms by (simp add: shr_def rshift_def)
  show ?thesis
    using v b s rotr_mod [OF assms(1,2), of "nat n" "nat (32 - n)"]
    by (simp add: drop_bit_eq_div bit_drop_bit_eq add.commute flip: drop_bit_eq_div)
qed

theorem rotr_is_circular_rotation_witness:
  "rotr 0x80000001 1 = Inr 0xC0000000 \<and> shr 0x80000001 1 = Inr 0x40000000"
  using rotr_is_circular_rotation [of "0x80000001" 1] by simp

section \<open>The loop body refines the specified compression step\<close>

lemma word32_mask [simp]: "word32 (x AND 0xFFFFFFFF)"
  using word_range_and [of x] by (simp add: word32_def)

lemma word32_mod: "word32 (x mod 2 ^ 32)"
  by (simp add: word32_def)

lemma word32_mod_num [simp]: "word32 (x mod 4294967296)"
  using word32_mod [of x] by simp

lemma rotr_spec: "word32 x \<Longrightarrow> 0 \<le> n \<Longrightarrow> n \<le> 32 \<Longrightarrow> rotr x n = Inr (spec_rotr x (nat n))"
proof -
  assume a: "word32 x" "0 \<le> n" "n \<le> 32"
  then have "nat (32 - n) = 32 - nat n" by simp
  with a show ?thesis
    using rotr_mod [of x "nat n" "32 - nat n"]
    by (simp add: rotr_value spec_rotr_def word32_def)
qed

lemma sigma0_256_spec: "word32 x \<Longrightarrow> sigma0_256 x = Inr (spec_Sigma0 x)"
  using rotr_spec [of x 2] rotr_spec [of x 13] rotr_spec [of x 22]
  by (simp add: sigma0_256_def spec_Sigma0_def)

lemma sigma1_256_spec: "word32 x \<Longrightarrow> sigma1_256 x = Inr (spec_Sigma1 x)"
  using rotr_spec [of x 6] rotr_spec [of x 11] rotr_spec [of x 25]
  by (simp add: sigma1_256_def spec_Sigma1_def)

lemma sigma0_256_small_spec: "word32 x \<Longrightarrow> sigma0_256_small x = Inr (spec_sigma0_small x)"
  using rotr_spec [of x 7] rotr_spec [of x 18]
  by (simp add: sigma0_256_small_def spec_sigma0_small_def shr_def rshift_def)

lemma sigma1_256_small_spec: "word32 x \<Longrightarrow> sigma1_256_small x = Inr (spec_sigma1_small x)"
  using rotr_spec [of x 17] rotr_spec [of x 19]
  by (simp add: sigma1_256_small_def spec_sigma1_small_def shr_def rshift_def)

lemma foldE_append: "foldE f (xs @ ys) s = bindE (foldE f xs s) (foldE f ys)"
  by (induction xs arbitrary: s) (auto simp add: bindE_def split: sum.splits)

lemma schedule_step_spec:
  assumes "16 \<le> t" "length w = t" "\<forall>x\<in>set w. word32 x"
  shows "schedule_step t w =
     Inr (w @ [(w ! (t - 16) + spec_sigma0_small (w ! (t - 15)) + w ! (t - 7)
                + spec_sigma1_small (w ! (t - 2))) mod 2 ^ 32])"
proof -
  have "word32 (w ! (t - 15))" "word32 (w ! (t - 2))"
    using assms by simp_all
  then show ?thesis
    using assms
    by (simp add: schedule_step_def idx_def sigma0_256_small_spec sigma1_256_small_spec and_mask32)
qed

lemma sched_inv_step:
  assumes "sched_inv block n W" "16 \<le> n"
  shows "\<exists>W'. schedule_step n W = Inr W' \<and> sched_inv block (Suc n) W'"
proof -
  define v where "v = (W ! (n - 16) + spec_sigma0_small (W ! (n - 15)) + W ! (n - 7)
                + spec_sigma1_small (W ! (n - 2))) mod 2 ^ 32"
  from assms have len: "length W = n" and rng: "\<forall>x\<in>set W. word32 x"
    and low: "\<forall>t<16. W ! t = block ! t"
    and rec: "\<And>t. 16 \<le> t \<Longrightarrow> t < n \<Longrightarrow> W ! t = (W ! (t - 16) + spec_sigma0_small (W ! (t - 15)) + W ! (t - 7)
                 + spec_sigma1_small (W ! (t - 2))) mod 2 ^ 32"
    by (simp_all add: sched_inv_def)
  have step: "schedule_step n W = Inr (W @ [v])"
    unfolding v_def using assms(2) len rng by (rule schedule_step_spec)
  have 1: "length (W @ [v]) = Suc n" using len by simp
  have 2: "\<forall>x\<in>set (W @ [v]). word32 x" using rng by (simp add: v_def)
  have 3: "\<forall>t<16. (W @ [v]) ! t = block ! t"
    using low len assms(2) by (simp add: nth_append)
  have 4: "(W @ [v]) ! t = ((W @ [v]) ! (t - 16) + spec_sigma0_small ((W @ [v]) ! (t - 15))
                + (W @ [v]) ! (t - 7) + spec_sigma1_small ((W @ [v]) ! (t - 2))) mod 2 ^ 32"
    if t: "16 \<le> t" "t < Suc n" for t
  proof (cases "t = n")
    case True
    have "(W @ [v]) ! n = v" using len by (simp add: nth_append)
    moreover have "(W @ [v]) ! (n - 16) = W ! (n - 16)" "(W @ [v]) ! (n - 15) = W ! (n - 15)"
      "(W @ [v]) ! (n - 7) = W ! (n - 7)" "(W @ [v]) ! (n - 2) = W ! (n - 2)"
      using len assms(2) by (auto simp add: nth_append)
    ultimately show ?thesis unfolding True by (simp only: v_def)
  next
    case False
    with t have lt: "t < n" by simp
    then have "(W @ [v]) ! t = W ! t" "(W @ [v]) ! (t - 16) = W ! (t - 16)"
      "(W @ [v]) ! (t - 15) = W ! (t - 15)"
      "(W @ [v]) ! (t - 7) = W ! (t - 7)" "(W @ [v]) ! (t - 2) = W ! (t - 2)"
      using len by (auto simp add: nth_append)
    then show ?thesis using rec [OF t(1) lt] by (simp only:)
  qed
  have "sched_inv block (Suc n) (W @ [v])"
    unfolding sched_inv_def using 1 2 3 4 by blast
  with step show ?thesis by blast
qed

lemma schedule_spec:
  assumes "sched_inv block 16 block"
  shows "\<exists>W. foldE schedule_step [16..<16 + k] block = Inr W \<and> sched_inv block (16 + k) W"
proof (induction k)
  case 0
  with assms show ?case by simp
next
  case (Suc k)
  then obtain W where W: "foldE schedule_step [16..<16 + k] block = Inr W"
    "sched_inv block (16 + k) W"
    by blast
  from sched_inv_step [OF W(2)] obtain W' where W': "schedule_step (16 + k) W = Inr W'"
    "sched_inv block (Suc (16 + k)) W'"
    by auto
  have "[16..<Suc (16 + k)] = [16..<16 + k] @ [16 + k]"
    by (rule upt_Suc_append) simp
  then have "foldE schedule_step [16..<Suc (16 + k)] block = Inr W'"
    using W(1) W'(1) by (simp only: foldE_append foldE.simps bindE_Inr)
  with W'(2) show ?case by (simp only: add_Suc_right) blast
qed

lemma sched_inv_init:
  "length block = 16 \<Longrightarrow> \<forall>x\<in>set block. word32 x \<Longrightarrow> sched_inv block 16 block"
  by (simp add: sched_inv_def)


lemma length_K_256: "length K_256 = 64"
  by (simp add: K_256_def)

lemma round_step_spec:
  assumes "t < 64" "t < length W" "working_ok v"
  shows "round_step W t v = Inr (spec_round K_256 W t v) \<and> working_ok (spec_round K_256 W t v)"
proof -
  obtain a b c d e f g h where v: "v = (a, b, c, d, e, f, g, h)"
    by (cases v) auto
  from assms(3) have ok: "word32 a" "word32 b" "word32 c" "word32 d" "word32 e" "word32 f" "word32 g"
    by (simp_all add: v)
  show ?thesis
    using assms(1,2) ok
    by (simp add: v idx_def length_K_256 sigma0_256_spec sigma1_256_spec ch_def maj_def
        spec_Ch_def spec_Maj_def and_mask32 Let_def)
qed

lemma rounds_spec:
  "\<forall>t\<in>set ts. t < 64 \<and> t < length W \<Longrightarrow> working_ok v \<Longrightarrow>
   foldE (round_step W) ts v = Inr (fold (spec_round K_256 W) ts v)
   \<and> working_ok (fold (spec_round K_256 W) ts v)"
proof (induction ts arbitrary: v)
  case Nil
  then show ?case by simp
next
  case (Cons t ts)
  then have "round_step W t v = Inr (spec_round K_256 W t v)" "working_ok (spec_round K_256 W t v)"
    using round_step_spec [of t W v] by simp_all
  moreover from Cons.prems have "\<forall>t\<in>set ts. t < 64 \<and> t < length W" by simp
  ultimately show ?case using Cons.IH [of "spec_round K_256 W t v"] by simp
qed

lemma list8:
  assumes "length xs = 8"
  shows "xs = [xs ! 0, xs ! 1, xs ! 2, xs ! 3, xs ! 4, xs ! 5, xs ! 6, xs ! 7]"
proof (rule nth_equalityI)
  show "length xs = length [xs ! 0, xs ! 1, xs ! 2, xs ! 3, xs ! 4, xs ! 5, xs ! 6, xs ! 7]"
    using assms by simp
next
  fix i assume "i < length xs"
  with assms have "i < Suc (Suc (Suc (Suc (Suc (Suc (Suc (Suc 0)))))))" by simp
  then have "i = 0 \<or> i = 1 \<or> i = 2 \<or> i = 3 \<or> i = 4 \<or> i = 5 \<or> i = 6 \<or> i = 7"
    by (simp only: less_Suc_eq) auto
  then show "xs ! i = [xs ! 0, xs ! 1, xs ! 2, xs ! 3, xs ! 4, xs ! 5, xs ! 6, xs ! 7] ! i"
    by auto
qed

lemma upt_8: "[0..<8] = [0, 1, 2, 3, 4, 5, 6, 7]"
  by (simp add: upt_conv_Cons)

lemma unpack8_seed: "length state = 8 \<Longrightarrow> unpack8 state = Inr (seed state)"
proof -
  assume "length state = 8"
  then obtain a b c d e f g h where s: "state = [a, b, c, d, e, f, g, h]"
    using list8 [of state] by blast
  show ?thesis by (simp add: s seed_def)
qed

lemma add_back_spec: "length state = 8 \<Longrightarrow> add_back state v = spec_next_state state v"
proof -
  assume "length state = 8"
  then obtain s0 s1 s2 s3 s4 s5 s6 s7 where s: "state = [s0, s1, s2, s3, s4, s5, s6, s7]"
    using list8 [of state] by blast
  obtain a b c d e f g h where v: "v = (a, b, c, d, e, f, g, h)"
    by (cases v) auto
  show ?thesis by (simp add: s v upt_8 and_mask32)
qed

lemma seed_ok: "length state = 8 \<Longrightarrow> \<forall>x\<in>set state. word32 x \<Longrightarrow> working_ok (seed state)"
  by (simp add: seed_def)

lemma block_body_spec:
  assumes "length state = 8" "\<forall>x\<in>set state. word32 x"
    and "length block = 16" "\<forall>x\<in>set block. word32 x"
  shows "\<exists>W. sched_inv block 64 W \<and>
           block_body state block = Inr (spec_next_state state (spec_rounds K_256 W (seed state)))"
proof -
  from schedule_spec [OF sched_inv_init [OF assms(3,4)], of 48]
  obtain W where W: "foldE schedule_step [16..<64] block = Inr W" "sched_inv block 64 W"
    by auto
  then have len: "length W = 64" by (simp add: sched_inv_def)
  have "\<forall>t\<in>set [0..<64]. t < 64 \<and> t < length W" using len by simp
  from rounds_spec [OF this seed_ok [OF assms(1,2)]]
  have "foldE (round_step W) [0..<64] (seed state) = Inr (spec_rounds K_256 W (seed state))"
    by (simp add: spec_rounds_def)
  then have "block_body state block = Inr (spec_next_state state (spec_rounds K_256 W (seed state)))"
    using W(1) assms(1) by (simp add: block_body_def unpack8_seed add_back_spec)
  with W(2) show ?thesis by blast
qed

lemma spec_next_state_ok:
  "length (spec_next_state state v) = 8 \<and> (\<forall>x\<in>set (spec_next_state state v). word32 x)"
proof -
  obtain a b c d e f g h where v: "v = (a, b, c, d, e, f, g, h)"
    by (cases v) auto
  show ?thesis by (simp add: v upt_8)
qed

lemma block_body_total:
  assumes "length state = 8" "\<forall>x\<in>set state. word32 x"
    and "length block = 16" "\<forall>x\<in>set block. word32 x"
  shows "\<exists>h'. block_body state block = Inr h' \<and> length h' = 8 \<and> (\<forall>x\<in>set h'. word32 x)"
  using block_body_spec [OF assms] spec_next_state_ok by metis

text \<open>
  Claim C3.  For a state of 8 Words and a block of 16 Words, the loop body builds a
  schedule \<open>W\<close> of 64 Words whose first 16 are the block's and whose entries 16 to 63 obey
  \<open>W[t] = (W[t-16] + \<sigma>0_small(W[t-15]) + W[t-7] + \<sigma>1_small(W[t-2])) mod 2 ^ 32\<close>, runs the
  64 rounds of the T1/T2 transformation on the working variables seeded from the state,
  and returns \<open>state'[i] = (state[i] + working[i]) mod 2 ^ 32\<close> for \<open>i\<close> from 0 to 7.
\<close>

theorem compression_step_refines_spec:
  assumes "length state = 8" and "\<forall>x\<in>set state. word32 x"
    and "length block = 16" and "\<forall>x\<in>set block. word32 x"
  shows "\<exists>W. length W = 64
           \<and> (\<forall>t<16. W ! t = block ! t)
           \<and> (\<forall>t. 16 \<le> t \<and> t < 64 \<longrightarrow>
                 W ! t = (W ! (t - 16) + spec_sigma0_small (W ! (t - 15)) + W ! (t - 7)
                          + spec_sigma1_small (W ! (t - 2))) mod 2 ^ 32)
           \<and> block_body state block
               = Inr (spec_next_state state (spec_rounds K_256 W (seed state)))"
proof -
  from block_body_spec [OF assms] obtain W where W: "sched_inv block 64 W"
    "block_body state block = Inr (spec_next_state state (spec_rounds K_256 W (seed state)))"
    by blast
  from W(1) have "length W = 64" "\<forall>t<16. W ! t = block ! t"
    "\<forall>t. 16 \<le> t \<and> t < 64 \<longrightarrow>
                 W ! t = (W ! (t - 16) + spec_sigma0_small (W ! (t - 15)) + W ! (t - 7)
                          + spec_sigma1_small (W ! (t - 2))) mod 2 ^ 32"
    unfolding sched_inv_def by blast+
  with W(2) show ?thesis by blast
qed

theorem compression_step_refines_spec_witness:
  "\<exists>W. length W = 64 \<and>
     block_body H_init [0x80000000, 0, 0, 0, 0, 0, 0, 0, 0, 0, 0, 0, 0, 0, 0, 0]
       = Inr (spec_next_state H_init (spec_rounds K_256 W (seed H_init)))"
proof -
  have 1: "length H_init = 8" by (simp add: H_init_def)
  have 2: "\<forall>x\<in>set H_init. word32 x" by (simp add: H_init_def word32_def)
  have 3: "length [0x80000000, 0, 0, 0, 0, 0, 0, 0, 0, 0, 0, 0, 0, 0, 0, 0 :: int] = 16" by simp
  have 4: "\<forall>x\<in>set [0x80000000, 0, 0, 0, 0, 0, 0, 0, 0, 0, 0, 0, 0, 0, 0, 0 :: int]. word32 x"
    by (simp add: word32_def)
  from compression_step_refines_spec [OF 1 2 3 4] show ?thesis by blast
qed

section \<open>Padding: closed form, layout and overflow\<close>

lemma bits_mod_512: "(n * 8) mod 512 = 448 \<longleftrightarrow> n mod 64 = 56" for n :: nat
proof -
  have "(n * 8) mod 512 = 8 * (n mod 64)"
    using mult_mod_right [of 8 n 64] by (simp add: mult.commute)
  then show ?thesis by simp
qed

lemma bits_mod_512_zero: "(n * 8) mod 512 = 0 \<longleftrightarrow> n mod 64 = 0" for n :: nat
proof -
  have "(n * 8) mod 512 = 8 * (n mod 64)"
    using mult_mod_right [of 8 n 64] by (simp add: mult.commute)
  then show ?thesis by simp
qed

lemma mod_64_small: "x < 128 \<Longrightarrow> x mod 64 = (if x < 64 then x else x - 64)" for x :: nat
  by (simp add: mod_if)

lemma pad_gap_le: "pad_gap n \<le> 63"
proof -
  have "n mod 64 < 64" by simp
  then show ?thesis unfolding pad_gap_def by (auto split: if_splits)
qed

lemma pad_gap_reaches: "(n + pad_gap n) mod 64 = 56"
proof -
  define r where "r = n mod 64"
  have r: "r < 64" by (simp add: r_def)
  have 1: "(n + pad_gap n) mod 64 = (r + pad_gap n) mod 64"
    unfolding r_def by (simp add: mod_add_left_eq)
  have 2: "pad_gap n = (if r \<le> 56 then 56 - r else 120 - r)"
    by (simp add: pad_gap_def r_def)
  have 3: "(r + (if r \<le> 56 then 56 - r else 120 - r)) mod 64 = 56"
    using r by (simp add: mod_64_small)
  show ?thesis unfolding 1 unfolding 2 by (rule 3)
qed

lemma pad_gap_least: "j < pad_gap n \<Longrightarrow> (n + j) mod 64 \<noteq> 56"
proof -
  assume j: "j < pad_gap n"
  define r where "r = n mod 64"
  have r: "r < 64" by (simp add: r_def)
  have g: "pad_gap n = (if r \<le> 56 then 56 - r else 120 - r)"
    by (simp add: pad_gap_def r_def)
  have 1: "(n + j) mod 64 = (r + j) mod 64"
    unfolding r_def by (simp add: mod_add_left_eq)
  have 2: "r + j < 128" using j r g by (auto split: if_splits)
  have 3: "(if r + j < 64 then r + j else r + j - 64) \<noteq> 56"
    using j r g by (auto split: if_splits)
  show ?thesis unfolding 1 mod_64_small [OF 2] by (rule 3)
qed

lemma pad_gap_zero: "n mod 64 = 56 \<Longrightarrow> pad_gap n = 0"
  by (simp add: pad_gap_def)

lemma pad_gap_Suc: "n mod 64 \<noteq> 56 \<Longrightarrow> pad_gap n = Suc (pad_gap (Suc n))"
proof -
  assume a: "n mod 64 \<noteq> 56"
  define r where "r = n mod 64"
  have b: "r < 64" by (simp add: r_def)
  have c: "Suc n mod 64 = (if Suc r = 64 then 0 else Suc r)"
    by (simp add: mod_Suc r_def)
  from a have d: "r \<noteq> 56" by (simp add: r_def)
  have "(if r \<le> 56 then 56 - r else 120 - r)
        = Suc (if (if Suc r = 64 then 0 else Suc r) \<le> 56
         then 56 - (if Suc r = 64 then 0 else Suc r)
         else 120 - (if Suc r = 64 then 0 else Suc r))"
    using b d by (auto split: if_splits)
  then show ?thesis
    unfolding pad_gap_def c r_def [symmetric] .
qed

lemma pad_loop_closed: "pad_loop p = p @ replicate (pad_gap (length p)) 0x00"
proof (induction p rule: pad_loop.induct)
  case (1 p)
  show ?case
  proof (cases "length p mod 64 = 56")
    case True
    then have "pad_loop p = p"
      using pad_loop.simps [of p] by (simp add: bits_mod_512)
    with True show ?thesis by (simp add: pad_gap_zero)
  next
    case False
    then have c: "(length p * 8) mod 512 \<noteq> 448" by (simp add: bits_mod_512)
    then have "pad_loop p = pad_loop (p @ [0x00])"
      using pad_loop.simps [of p] by simp
    also have "\<dots> = (p @ [0x00]) @ replicate (pad_gap (length (p @ [0x00]))) 0x00"
      using "1.IH" [OF c] .
    also have "\<dots> = p @ replicate (pad_gap (length p)) 0x00"
      using pad_gap_Suc [OF False] by (simp add: replicate_app_Cons_same)
    finally show ?thesis .
  qed
qed

lemma to_bytes_big_8:
  "n < 2 ^ 61 \<Longrightarrow> to_bytes_big (int n * 8) 8 = Inr (length_field n)"
  by (simp add: to_bytes_big_def length_field_def)

lemma to_bytes_big_overflow:
  "2 ^ 61 \<le> n \<Longrightarrow> to_bytes_big (int n * 8) 8 = Inl OverflowError"
  by (simp add: to_bytes_big_def)

lemma padding_value:
  "length m < 2 ^ 61 \<Longrightarrow>
   padding m = Inr (m @ [0x80] @ replicate (pad_gap (Suc (length m))) 0x00 @ length_field (length m))"
  by (simp add: padding_def pad_loop_closed to_bytes_big_8 Let_def)

lemma padding_overflow: "2 ^ 61 \<le> length m \<Longrightarrow> padding m = Inl OverflowError"
  by (simp add: padding_def to_bytes_big_overflow Let_def)

lemma length_length_field: "length (length_field n) = 8"
  by (simp add: length_field_def)


lemma from_bytes_big_snoc: "from_bytes_big (bs @ [b]) = from_bytes_big bs * 256 + uint b"
  by (simp add: from_bytes_big_def)

lemma from_bytes_big_bounds: "0 \<le> from_bytes_big bs \<and> from_bytes_big bs < 256 ^ length bs"
proof (induction bs rule: rev_induct)
  case Nil
  show ?case by (simp add: from_bytes_big_def)
next
  case (snoc b bs)
  have "0 \<le> uint b" "uint b < 256"
    using uint_bounded [of b] by simp_all
  moreover from snoc have "from_bytes_big bs + 1 \<le> 256 ^ length bs" by simp
  then have "(from_bytes_big bs + 1) * 256 \<le> 256 ^ length bs * 256"
    by (rule mult_right_mono) simp
  ultimately show ?case using snoc
    by (simp add: from_bytes_big_snoc algebra_simps)
qed

lemma uint_byte_of_int: "uint (word_of_int x :: byte) = x mod 256"
  by (simp add: uint_word_of_int take_bit_eq_mod)

lemma be_bytes_Suc:
  "map (\<lambda>i. word_of_int (n div 256 ^ (Suc k - 1 - i)) :: byte) [0..<Suc k]
   = map (\<lambda>i. word_of_int (n div 256 div 256 ^ (k - 1 - i))) [0..<k] @ [word_of_int n]"
proof -
  have "n div 256 ^ (k - i) = n div 256 div 256 ^ (k - 1 - i)" if "i < k" for i
  proof -
    from that have "k - i = Suc (k - 1 - i)" by simp
    then show ?thesis by (simp add: zdiv_zmult2_eq)
  qed
  then show ?thesis by simp
qed

lemma from_bytes_big_be:
  "0 \<le> n \<Longrightarrow>
   from_bytes_big (map (\<lambda>i. word_of_int (n div 256 ^ (k - 1 - i))) [0..<k]) = n mod 256 ^ k"
proof (induction k arbitrary: n)
  case 0
  show ?case by (simp add: from_bytes_big_def)
next
  case (Suc k)
  from Suc.prems have "0 \<le> n div 256" by simp
  from Suc.IH [OF this] show ?case
    unfolding be_bytes_Suc from_bytes_big_snoc uint_byte_of_int
    by (simp add: zmod_zmult2_eq mult.commute)
qed

lemma from_bytes_big_length_field:
  "n < 2 ^ 61 \<Longrightarrow> from_bytes_big (length_field n) = int n * 8"
proof -
  assume a: "n < 2 ^ 61"
  have "from_bytes_big (length_field n) = (int n * 8) mod 256 ^ 8"
    unfolding length_field_def using from_bytes_big_be [of "int n * 8" 8] by simp
  moreover have "int n * 8 < 256 ^ 8" using a by simp
  ultimately show ?thesis by simp
qed

lemma mod_64_plus_8: "x mod 64 = 56 \<Longrightarrow> (x + 8) mod 64 = 0" for x :: nat
proof -
  assume a: "x mod 64 = 56"
  have "(x + 8) mod 64 = (x mod 64 + 8) mod 64" by (simp add: mod_add_left_eq)
  with a show ?thesis by simp
qed

lemma padding_length:
  assumes "padding m = Inr p"
  shows "length m < 2 ^ 61 \<and> length p = length m + 9 + pad_gap (Suc (length m))
         \<and> length p mod 64 = 0"
proof -
  have lt: "length m < 2 ^ 61"
  proof (rule ccontr)
    assume "\<not> length m < 2 ^ 61"
    then have "padding m = Inl OverflowError" by (simp add: padding_overflow)
    with assms show False by simp
  qed
  with assms have p: "p = m @ [0x80] @ replicate (pad_gap (Suc (length m))) 0x00 @ length_field (length m)"
    by (simp add: padding_value)
  then have len: "length p = length m + 9 + pad_gap (Suc (length m))"
    by (simp add: length_length_field)
  have "(Suc (length m) + pad_gap (Suc (length m)) + 8) mod 64 = 0"
    by (rule mod_64_plus_8) (rule pad_gap_reaches)
  moreover have "Suc (length m) + pad_gap (Suc (length m)) + 8 = length p"
    using len by simp
  ultimately have "length p mod 64 = 0" by (simp only:)
  with lt len show ?thesis by simp
qed


text \<open>
  Claim C4.  For a message shorter than \<open>2 ^ 61\<close> bytes (longer ones are claim C7's),
  \<open>padding\<close> returns the message, then the byte \<open>0x80\<close>, then \<open>k\<close> zero bytes where \<open>k\<close>
  is the least count that brings the bit length to 448 modulo 512, then the 8 bytes of the
  message's bit length, most significant first.  The result's bit length is a positive
  multiple of 512, and it is between 9 and 72 bytes longer than the message.
\<close>

theorem padding_appends_marker_zeros_length:
  assumes "length m < 2 ^ 61"
  shows "\<exists>k. padding m = Inr (m @ [0x80] @ replicate k 0x00 @ length_field (length m))
           \<and> (length (m @ [0x80] @ replicate k 0x00) * 8) mod 512 = 448
           \<and> (\<forall>j<k. (length (m @ [0x80] @ replicate j 0x00) * 8) mod 512 \<noteq> 448)
           \<and> length (length_field (length m)) = 8
           \<and> from_bytes_big (length_field (length m)) = int (length m) * 8
           \<and> (\<forall>p. padding m = Inr p \<longrightarrow>
                 (length p * 8) mod 512 = 0 \<and> 0 < length p
                 \<and> length m + 9 \<le> length p \<and> length p \<le> length m + 72)"
proof -
  define k where "k = pad_gap (Suc (length m))"
  have 1: "padding m = Inr (m @ [0x80] @ replicate k 0x00 @ length_field (length m))"
    using assms by (simp add: padding_value k_def)
  have len: "length (m @ [0x80] @ replicate j 0x00) = Suc (length m) + j" for j
    by simp
  have 2: "(length (m @ [0x80] @ replicate k 0x00) * 8) mod 512 = 448"
    unfolding len bits_mod_512 k_def by (rule pad_gap_reaches)
  have 3: "\<forall>j<k. (length (m @ [0x80] @ replicate j 0x00) * 8) mod 512 \<noteq> 448"
    unfolding len bits_mod_512 k_def using pad_gap_least by blast
  have 4: "(length p * 8) mod 512 = 0 \<and> 0 < length p
           \<and> length m + 9 \<le> length p \<and> length p \<le> length m + 72"
    if "padding m = Inr p" for p
  proof -
    from padding_length [OF that]
    have a: "length p = length m + 9 + pad_gap (Suc (length m))" and b: "length p mod 64 = 0"
      by blast+
    from b have "(length p * 8) mod 512 = 0" by (simp only: bits_mod_512_zero)
    with a pad_gap_le [of "Suc (length m)"] show ?thesis by simp
  qed
  from 1 2 3 4 length_length_field from_bytes_big_length_field [OF assms]
  show ?thesis by blast
qed

theorem padding_appends_marker_zeros_length_witness:
  "\<exists>p. padding [0x61, 0x62, 0x63] = Inr p \<and> (length p * 8) mod 512 = 0"
proof -
  have "length [0x61, 0x62, 0x63 :: byte] < 2 ^ 61" by simp
  from padding_appends_marker_zeros_length [OF this] show ?thesis by blast
qed

text \<open>
  Claim C7.  For a message of \<open>2 ^ 61\<close> bytes or more the bit length does not fit 8 bytes:
  \<^verbatim>\<open>to_bytes\<close> on line 80 raises OverflowError, which leaves \<open>padding\<close> and
  \<open>sha256\<close> uncaught, so the caller gets the error and no digest.
\<close>

theorem oversized_message_raises:
  "2 ^ 61 \<le> length m \<Longrightarrow>
   padding m = Inl OverflowError \<and> sha256 m = Inl OverflowError \<and> (\<forall>s. sha256 m \<noteq> Inr s)"
  by (simp add: sha256_def padding_overflow)

theorem oversized_message_raises_witness:
  "sha256 (replicate (2 ^ 61) 0x00) = Inl OverflowError"
  using oversized_message_raises [of "replicate (2 ^ 61) 0x00"] by simp

section \<open>Block parsing: count, order and word values\<close>

lemma length_range3: "length (range3 a b s) = (b - a + s - 1) div s"
  by (simp add: range3_def)

lemma nth_range3: "i < (b - a + s - 1) div s \<Longrightarrow> range3 a b s ! i = a + i * s"
  by (simp add: range3_def)

lemma length_parse_message: "length (parse_message bs) = (length bs + 63) div 64"
  by (simp add: parse_message_def length_range3)

lemma py_slice_word:
  "j < 16 \<Longrightarrow> py_slice (py_slice bs (i * 64) (i * 64 + 64)) (j * 4) (j * 4 + 4)
     = take 4 (drop (64 * i + 4 * j) bs)"
  by (simp add: py_slice_def drop_take min_def add.commute mult.commute)

lemma parse_message_nth:
  assumes "i < (length bs + 63) div 64"
  shows "length (parse_message bs ! i) = 16"
    and "j < 16 \<Longrightarrow> parse_message bs ! i ! j = from_bytes_big (take 4 (drop (64 * i + 4 * j) bs))"
proof -
  have b: "parse_message bs ! i
      = map (\<lambda>j. from_bytes_big (py_slice (py_slice bs (i * 64) (i * 64 + 64)) j (j + 4))) (range3 0 64 4)"
    using assms by (simp add: parse_message_def length_range3 nth_range3 Let_def)
  show "length (parse_message bs ! i) = 16"
    by (simp add: b length_range3)
  show "parse_message bs ! i ! j = from_bytes_big (take 4 (drop (64 * i + 4 * j) bs))" if "j < 16"
    using that by (simp add: b length_range3 nth_range3 py_slice_word)
qed

lemma take_4_drop:
  "n + 4 \<le> length xs \<Longrightarrow> take 4 (drop n xs) = [xs ! n, xs ! (n + 1), xs ! (n + 2), xs ! (n + 3)]"
proof -
  assume a: "n + 4 \<le> length xs"
  have "take (Suc (Suc (Suc (Suc 0)))) (drop n xs) = [xs ! n, xs ! (n + 1), xs ! (n + 2), xs ! (n + 3)]"
    using a by (simp add: take_Suc_conv_app_nth numeral_3_eq_3 numeral_2_eq_2)
  then show ?thesis by (simp add: numeral_eq_Suc)
qed

lemma from_bytes_big_4:
  "from_bytes_big [a, b, c, d] = uint a * 2 ^ 24 + uint b * 2 ^ 16 + uint c * 2 ^ 8 + uint d"
  by (simp add: from_bytes_big_def)

lemma word32_from_bytes_big: "length bs \<le> 4 \<Longrightarrow> word32 (from_bytes_big bs)"
proof -
  assume "length bs \<le> 4"
  then have "(256 :: int) ^ length bs \<le> 256 ^ 4"
    by (intro power_increasing) simp_all
  with from_bytes_big_bounds [of bs] show ?thesis by (simp add: word32_def)
qed

lemma parse_message_words:
  assumes "b \<in> set (parse_message bs)"
  shows "length b = 16 \<and> (\<forall>w\<in>set b. word32 w)"
proof -
  from assms obtain i where i: "i < (length bs + 63) div 64" "b = parse_message bs ! i"
    by (auto simp add: in_set_conv_nth length_parse_message)
  have len: "length b = 16" using parse_message_nth(1) [OF i(1)] i(2) by simp
  have "word32 w" if "w \<in> set b" for w
  proof -
    from that len obtain j where j: "j < 16" "w = b ! j"
      by (auto simp add: in_set_conv_nth)
    then have "w = from_bytes_big (take 4 (drop (64 * i + 4 * j) bs))"
      using parse_message_nth(2) [OF i(1)] i(2) by simp
    then show ?thesis by (simp add: word32_from_bytes_big)
  qed
  with len show ?thesis by blast
qed

text \<open>
  Claim C5.  When the length of the byte sequence is a multiple of 64, \<open>parse_message\<close>
  returns one block per 64-byte chunk, block \<open>i\<close> being made from chunk \<open>i\<close>; each block has
  16 words and word \<open>j\<close> is the big-endian value of bytes \<open>4j\<close> to \<open>4j+3\<close> of the chunk.
\<close>

theorem parse_message_blocks_in_order:
  assumes "length bs mod 64 = 0"
  shows "length (parse_message bs) = length bs div 64 \<and>
         (\<forall>i<length bs div 64. length (parse_message bs ! i) = 16 \<and>
            (\<forall>j<16. parse_message bs ! i ! j
               = uint (bs ! (64 * i + 4 * j)) * 2 ^ 24 + uint (bs ! (64 * i + 4 * j + 1)) * 2 ^ 16
                 + uint (bs ! (64 * i + 4 * j + 2)) * 2 ^ 8 + uint (bs ! (64 * i + 4 * j + 3))))"
proof -
  from assms obtain q where q: "length bs = 64 * q" by (auto simp add: mod_eq_0_iff_dvd)
  then have n: "(length bs + 63) div 64 = length bs div 64" "length bs div 64 = q" by simp_all
  have w: "parse_message bs ! i ! j
               = uint (bs ! (64 * i + 4 * j)) * 2 ^ 24 + uint (bs ! (64 * i + 4 * j + 1)) * 2 ^ 16
                 + uint (bs ! (64 * i + 4 * j + 2)) * 2 ^ 8 + uint (bs ! (64 * i + 4 * j + 3))"
    if "i < length bs div 64" "j < 16" for i j
  proof -
    from that n have "Suc i \<le> q" by simp
    then have "64 * Suc i \<le> 64 * q" by (simp only: mult_le_mono2)
    with that(2) q have "64 * i + 4 * j + 4 \<le> length bs" by simp
    from take_4_drop [OF this] show ?thesis
      using parse_message_nth(2) [of i bs j] that n by (simp add: from_bytes_big_4)
  qed
  have "length (parse_message bs ! i) = 16" if "i < length bs div 64" for i
    using parse_message_nth(1) [of i bs] that n by simp
  with w show ?thesis by (simp add: length_parse_message n)
qed

theorem parse_message_blocks_in_order_witness:
  "length (parse_message (replicate 64 0x01)) = 1 \<and>
   parse_message (replicate 64 0x01) ! 0 ! 0 = 0x01010101"
  using parse_message_blocks_in_order [of "replicate 64 0x01"] by simp

text \<open>
  Claim C8, as the program has it.  \<open>parse_message\<close> has no length check and cannot
  fail.  When the length is not a multiple of 64 it returns one block more than there are
  whole chunks; every block has 16 words, and each word is the big-endian value of the up
  to 4 bytes found at its place: fewer than 4 at the end of the input, none beyond it
  (the value 0).
\<close>

theorem parse_message_partial_chunk:
  assumes "length bs mod 64 \<noteq> 0"
  shows "length (parse_message bs) = length bs div 64 + 1 \<and>
         (\<forall>i\<le>length bs div 64. length (parse_message bs ! i) = 16 \<and>
            (\<forall>j<16. parse_message bs ! i ! j
                = from_bytes_big (take 4 (drop (64 * i + 4 * j) bs))))"
proof -
  have "(length bs + 63) div 64 = length bs div 64 + 1"
  proof -
    define r where "r = length bs mod 64"
    define q where "q = length bs div 64"
    have l: "length bs = 64 * q + r" by (simp add: q_def r_def)
    have r: "0 < r" "r < 64" using assms by (simp_all add: r_def)
    then have "64 * q + r + 63 = (r - 1) + (q + 1) * 64" by simp
    moreover have "((r - 1) + (q + 1) * 64) div 64 = q + 1"
      using r by simp
    ultimately have "(64 * q + r + 63) div 64 = q + 1" by (simp only:)
    then have "(length bs + 63) div 64 = q + 1" unfolding l .
    then show ?thesis by (simp only: q_def)
  qed
  then show ?thesis
    using parse_message_nth [of _ bs] by (simp add: length_parse_message less_Suc_eq_le)
qed

theorem parse_message_partial_chunk_witness:
  "length (parse_message [0x01]) = 1"
  using parse_message_partial_chunk [of "[0x01]"] by simp

theorem parse_message_partial_chunk_counterexample:
  "length [0x01 :: byte] mod 64 \<noteq> 0 \<and>
   parse_message [0x01] = [[1, 0, 0, 0, 0, 0, 0, 0, 0, 0, 0, 0, 0, 0, 0, 0]]"
  by (simp add: parse_message_def range3_def py_slice_def from_bytes_big_def upt_conv_Cons)

section \<open>Formatting a word as eight hex digits\<close>

lemma hex_fixed_Suc: "hex_fixed (Suc k) n = hex_fixed k (n div 16) @ [hex_digit (n mod 16)]"
proof -
  have "n div 16 ^ (k - i) = n div 16 div 16 ^ (k - 1 - i)" if "i < k" for i
  proof -
    from that have "k - i = Suc (k - 1 - i)" by simp
    then show ?thesis by (simp add: div_mult2_eq)
  qed
  then show ?thesis by (simp add: hex_fixed_def)
qed

lemma hex_digit_0: "hex_digit 0 = CHR ''0''"
  by (simp add: hex_digit_def)

lemma hex_fixed_zero: "hex_fixed k 0 = replicate k CHR ''0''"
  by (simp add: hex_fixed_def hex_digit_0 map_replicate_const)

lemma hex_of_nat_small: "n < 16 \<Longrightarrow> hex_of_nat n = [hex_digit n]"
  using hex_of_nat.simps [of n] by simp

lemma hex_of_nat_large:
  "\<not> n < 16 \<Longrightarrow> hex_of_nat n = hex_of_nat (n div 16) @ [hex_digit (n mod 16)]"
  using hex_of_nat.simps [of n] by simp

lemma hex_of_nat_pad:
  "n < 16 ^ Suc k \<Longrightarrow>
   length (hex_of_nat n) \<le> Suc k \<and>
   replicate (Suc k - length (hex_of_nat n)) CHR ''0'' @ hex_of_nat n = hex_fixed (Suc k) n"
proof (induction k arbitrary: n)
  case 0
  then have "n < 16" by simp
  then show ?case
    by (simp add: hex_of_nat_small hex_fixed_Suc hex_fixed_def)
next
  case (Suc k)
  show ?case
  proof (cases "n < 16")
    case True
    then show ?thesis
      by (simp add: hex_of_nat_small hex_fixed_Suc [of "Suc k"] hex_fixed_zero)
  next
    case False
    from Suc.prems have "n div 16 < 16 ^ Suc k"
      by (simp add: div_less_iff_less_mult mult.commute)
    from Suc.IH [OF this]
    have l: "length (hex_of_nat (n div 16)) \<le> Suc k"
      and e: "replicate (Suc k - length (hex_of_nat (n div 16))) CHR ''0'' @ hex_of_nat (n div 16)
             = hex_fixed (Suc k) (n div 16)"
      by blast+
    have "replicate (Suc (Suc k) - length (hex_of_nat n)) CHR ''0'' @ hex_of_nat n
          = (replicate (Suc k - length (hex_of_nat (n div 16))) CHR ''0'' @ hex_of_nat (n div 16))
            @ [hex_digit (n mod 16)]"
      by (simp add: hex_of_nat_large [OF False])
    also have "\<dots> = hex_fixed (Suc (Suc k)) n"
      unfolding e by (simp only: hex_fixed_Suc [of "Suc k"])
    finally show ?thesis using l by (simp add: hex_of_nat_large [OF False])
  qed
qed

lemma spec_hex8_fixed: "spec_hex8 w = hex_fixed 8 (nat w)"
  by (simp add: spec_hex8_def hex_fixed_def)

lemma fmt08x_word: "word32 w \<Longrightarrow> fmt08x w = spec_hex8 w"
proof -
  assume w: "word32 w"
  then have "nat w < nat 4294967296" by (simp only: word32_def nat_less_eq_zless) simp
  then have "nat w < 16 ^ Suc 7" by simp
  from hex_of_nat_pad [OF this] have "replicate (8 - length (hex_of_nat (nat w))) CHR ''0'' @ hex_of_nat (nat w)
      = hex_fixed 8 (nat w)"
    by simp
  with w show ?thesis by (simp add: fmt08x_def spec_hex8_fixed word32_def Let_def)
qed

lemma hex_digit_lower: "d < 16 \<Longrightarrow> hex_digit d \<in> set ''0123456789abcdef''"
  unfolding hex_digit_def by (rule nth_mem) simp

lemma spec_hex8_shape: "length (spec_hex8 w) = 8 \<and> set (spec_hex8 w) \<subseteq> set ''0123456789abcdef''"
proof -
  have "hex_digit (nat w div 16 ^ (7 - i) mod 16) \<in> set ''0123456789abcdef''" for i
    by (rule hex_digit_lower) simp
  then show ?thesis unfolding spec_hex8_def by auto
qed

lemma concat_hex8_shape:
  "length (concat (map spec_hex8 hs)) = 8 * length hs \<and>
   set (concat (map spec_hex8 hs)) \<subseteq> set ''0123456789abcdef''"
proof (induction hs)
  case Nil
  show ?case by simp
next
  case (Cons h hs)
  with spec_hex8_shape [of h] show ?case by simp
qed


section \<open>The pipeline returns a digest\<close>

lemma H_init_ok: "length H_init = 8 \<and> (\<forall>x\<in>set H_init. word32 x)"
  by (simp add: H_init_def word32_def)

lemma padding_at_least_64: "padding m = Inr p \<Longrightarrow> 64 \<le> length p"
proof -
  assume "padding m = Inr p"
  from padding_length [OF this]
  have a: "length p = length m + 9 + pad_gap (Suc (length m))" and b: "length p mod 64 = 0"
    by blast+
  from a have "0 < length p" by simp
  moreover from b obtain k where "length p = 64 * k"
    by (auto simp add: mod_eq_0_iff_dvd)
  ultimately show ?thesis by (cases k) simp_all
qed

lemma parse_message_nonempty: "64 \<le> length p \<Longrightarrow> parse_message p \<noteq> []"
proof -
  assume "64 \<le> length p"
  then have "1 \<le> (length p + 63) div 64" by simp
  then have "0 < length (parse_message p)" by (simp only: length_parse_message)
  then show ?thesis by simp
qed

lemma sha256_hash_computation_first:
  "sha256_hash_computation (block # rest) = bindE (block_body H_init block) (\<lambda>h'. Inr (Some h'))"
  by (simp add: sha256_hash_computation_def)

lemma sha256_hash_computation_parsed:
  assumes "parse_message p \<noteq> []"
  shows "\<exists>hs. sha256_hash_computation (parse_message p) = Inr (Some hs)
           \<and> length hs = 8 \<and> (\<forall>w\<in>set hs. word32 w)"
proof -
  from assms obtain block rest where br: "parse_message p = block # rest"
    by (cases "parse_message p") auto
  then have "block \<in> set (parse_message p)" by simp
  from parse_message_words [OF this] have "length block = 16" "\<forall>w\<in>set block. word32 w"
    by blast+
  with H_init_ok block_body_total [of H_init block]
  obtain hs where "block_body H_init block = Inr hs" "length hs = 8" "\<forall>w\<in>set hs. word32 w"
    by blast
  then show ?thesis by (simp add: br sha256_hash_computation_first)
qed

lemma sha256_of_padded:
  assumes "padding m = Inr p"
  shows "\<exists>hs. sha256_hash_computation (parse_message p) = Inr (Some hs)
           \<and> length hs = 8 \<and> (\<forall>w\<in>set hs. word32 w)
           \<and> sha256 m = Inr (concat (map spec_hex8 hs))"
proof -
  from sha256_hash_computation_parsed [OF parse_message_nonempty [OF padding_at_least_64 [OF assms]]]
  obtain hs where hs: "sha256_hash_computation (parse_message p) = Inr (Some hs)"
    "length hs = 8" "\<forall>w\<in>set hs. word32 w"
    by blast
  from hs(3) have "map fmt08x hs = map spec_hex8 hs"
    by (simp add: fmt08x_word)
  then have "concat (map fmt08x hs) = concat (map spec_hex8 hs)"
    by (simp only:)
  with assms hs show ?thesis by (simp add: sha256_def)
qed

lemma sha256_cases:
  "(\<exists>p hs. padding m = Inr p \<and> sha256_hash_computation (parse_message p) = Inr (Some hs)
           \<and> length hs = 8 \<and> (\<forall>w\<in>set hs. word32 w)
           \<and> sha256 m = Inr (concat (map spec_hex8 hs)))
   \<or> (2 ^ 61 \<le> length m \<and> sha256 m = Inl OverflowError)"
proof (cases "length m < 2 ^ 61")
  case True
  then obtain p where "padding m = Inr p" using padding_value by blast
  from this sha256_of_padded [OF this] show ?thesis by blast
next
  case False
  then show ?thesis by (simp add: sha256_def padding_overflow)
qed

text \<open>
  Claim C9.  For every message shorter than \<open>2 ^ 61\<close> bytes \<open>sha256\<close> returns the 8 state
  words that the hash computation produced, each written as 8 lowercase hex digits, most
  significant first, zero-filled, and joined with nothing between or before them.  Whatever
  the message, a value that \<open>sha256\<close> returns is 64 characters, all of them in
  \<open>0123456789abcdef\<close>: that is 32 bytes.
\<close>

theorem sha256_digest_is_64_hex_chars:
  "(length m < 2 ^ 61 \<longrightarrow>
      (\<exists>p hs. padding m = Inr p \<and> sha256_hash_computation (parse_message p) = Inr (Some hs)
           \<and> length hs = 8 \<and> (\<forall>w\<in>set hs. word32 w)
           \<and> sha256 m = Inr (concat (map spec_hex8 hs))))
   \<and> (\<forall>s. sha256 m = Inr s \<longrightarrow>
         length s = 64 \<and> set s \<subseteq> set ''0123456789abcdef'')"
proof -
  have "length s = 64 \<and> set s \<subseteq> set ''0123456789abcdef''" if "sha256 m = Inr s" for s
  proof -
    from that sha256_cases [of m] obtain hs where "length hs = 8" "s = concat (map spec_hex8 hs)"
      by auto
    with concat_hex8_shape [of hs] show ?thesis by simp
  qed
  moreover have "\<exists>p hs. padding m = Inr p \<and> sha256_hash_computation (parse_message p) = Inr (Some hs)
           \<and> length hs = 8 \<and> (\<forall>w\<in>set hs. word32 w)
           \<and> sha256 m = Inr (concat (map spec_hex8 hs))" if "length m < 2 ^ 61"
    using that sha256_cases [of m] by auto
  ultimately show ?thesis by blast
qed

theorem sha256_digest_is_64_hex_chars_witness:
  "\<exists>s. sha256 [0x61, 0x62, 0x63] = Inr s \<and> length s = 64"
proof -
  have "length [0x61, 0x62, 0x63 :: byte] < 2 ^ 61" by simp
  with sha256_digest_is_64_hex_chars [of "[0x61, 0x62, 0x63]"]
  obtain hs where "sha256 [0x61, 0x62, 0x63] = Inr (concat (map spec_hex8 hs))"
    by blast
  with sha256_digest_is_64_hex_chars [of "[0x61, 0x62, 0x63]"] show ?thesis by blast
qed

text \<open>
  Claim C10.  Whenever \<open>padding\<close> returns, its result has at least 64 bytes, so
  \<open>parse_message\<close> gives at least one block and the loop of
  \<open>sha256_hash_computation\<close> runs: the call does not fall through to \<^verbatim>\<open>None\<close>, which is
  what the function returns on an empty list of blocks, and \<open>sha256\<close> never reaches the
  TypeError that iterating over \<^verbatim>\<open>None\<close> would raise.
\<close>

theorem fall_through_unreachable_from_sha256:
  "(\<forall>p. padding m = Inr p \<longrightarrow>
        64 \<le> length p \<and> parse_message p \<noteq> []
        \<and> sha256_hash_computation (parse_message p) \<noteq> Inr None)
   \<and> sha256 m \<noteq> Inl TypeError
   \<and> sha256_hash_computation [] = Inr None"
proof -
  have "64 \<le> length p \<and> parse_message p \<noteq> []
        \<and> sha256_hash_computation (parse_message p) \<noteq> Inr None" if "padding m = Inr p" for p
    using padding_at_least_64 [OF that] parse_message_nonempty [OF padding_at_least_64 [OF that]]
      sha256_of_padded [OF that] by auto
  moreover have "sha256 m \<noteq> Inl TypeError"
    using sha256_cases [of m] by auto
  moreover have "sha256_hash_computation [] = Inr None"
    by (simp add: sha256_hash_computation_def)
  ultimately show ?thesis by blast
qed

theorem fall_through_unreachable_from_sha256_witness:
  "\<exists>p. padding [] = Inr p \<and> 64 \<le> length p \<and> parse_message p \<noteq> []"
proof -
  have "length ([] :: byte list) < 2 ^ 61" by simp
  then obtain p where "padding [] = Inr p" using padding_value by blast
  with fall_through_unreachable_from_sha256 [of "[]"] show ?thesis by blast
qed

section \<open>Digests of three concrete messages\<close>

text \<open>
  The empty message, \<open>msg_abc\<close> and \<open>msg_nist56\<close>, each taken through padding, parsing, the
  hash computation and the formatting.
\<close>

lemmas block_eval = block_body_def schedule_step_def idx_def sigma0_256_def sigma1_256_def
  sigma0_256_small_def sigma1_256_small_def rotr_def rshift_def lshift_def shr_def ch_def maj_def
  upt_conv_Cons H_init_def K_256_def

lemma zeros_empty:
  "replicate 55 (0x00 :: byte) =
     [0, 0, 0, 0, 0, 0, 0, 0, 0, 0, 0, 0, 0, 0, 0, 0, 0, 0, 0, 0, 0, 0, 0, 0, 0, 0, 0, 0, 0,
      0, 0, 0, 0, 0, 0, 0, 0, 0, 0, 0, 0, 0, 0, 0, 0, 0, 0, 0, 0, 0, 0, 0, 0, 0, 0]"
  by (simp add: numeral_eq_Suc)

lemma length_field_empty: "length_field 0 = [0x00, 0x00, 0x00, 0x00, 0x00, 0x00, 0x00, 0x00]"
  by (simp add: length_field_def upt_conv_Cons)

lemma padding_empty:
  "padding ([] :: byte list) =
     Inr [0x80, 0x00, 0x00, 0x00, 0x00, 0x00, 0x00, 0x00, 0x00, 0x00, 0x00, 0x00, 0x00, 0x00,
      0x00, 0x00, 0x00, 0x00, 0x00, 0x00, 0x00, 0x00, 0x00, 0x00, 0x00, 0x00, 0x00, 0x00,
      0x00, 0x00, 0x00, 0x00, 0x00, 0x00, 0x00, 0x00, 0x00, 0x00, 0x00, 0x00, 0x00, 0x00,
      0x00, 0x00, 0x00, 0x00, 0x00, 0x00, 0x00, 0x00, 0x00, 0x00, 0x00, 0x00, 0x00, 0x00,
      0x00, 0x00, 0x00, 0x00, 0x00, 0x00, 0x00, 0x00]"
proof -
  have 1: "padding ([] :: byte list)
      = Inr (([] :: byte list) @ [0x80] @ replicate (pad_gap (Suc (length ([] :: byte list)))) 0x00
             @ length_field (length ([] :: byte list)))"
    by (rule padding_value) (simp add: padding_def)
  have 2: "length ([] :: byte list) = 0" by (simp add: padding_def)
  have 3: "pad_gap (Suc 0) = 55" by (simp add: pad_gap_def)
  show ?thesis unfolding 1 2 3 zeros_empty length_field_empty by (simp add: padding_def)
qed

lemma parse_empty:
  "parse_message
     [0x80, 0x00, 0x00, 0x00, 0x00, 0x00, 0x00, 0x00, 0x00, 0x00, 0x00, 0x00, 0x00, 0x00,
      0x00, 0x00, 0x00, 0x00, 0x00, 0x00, 0x00, 0x00, 0x00, 0x00, 0x00, 0x00, 0x00, 0x00,
      0x00, 0x00, 0x00, 0x00, 0x00, 0x00, 0x00, 0x00, 0x00, 0x00, 0x00, 0x00, 0x00, 0x00,
      0x00, 0x00, 0x00, 0x00, 0x00, 0x00, 0x00, 0x00, 0x00, 0x00, 0x00, 0x00, 0x00, 0x00,
      0x00, 0x00, 0x00, 0x00, 0x00, 0x00, 0x00, 0x00] =
     [[0x80000000, 0x00000000, 0x00000000, 0x00000000, 0x00000000, 0x00000000, 0x00000000,
      0x00000000, 0x00000000, 0x00000000, 0x00000000, 0x00000000, 0x00000000, 0x00000000,
      0x00000000, 0x00000000]]"
  by (simp add: parse_message_def range3_def py_slice_def from_bytes_big_def upt_conv_Cons)

lemma block_empty:
  "block_body H_init
     [0x80000000, 0x00000000, 0x00000000, 0x00000000, 0x00000000, 0x00000000, 0x00000000,
      0x00000000, 0x00000000, 0x00000000, 0x00000000, 0x00000000, 0x00000000, 0x00000000,
      0x00000000, 0x00000000] =
     Inr [0xE3B0C442, 0x98FC1C14, 0x9AFBF4C8, 0x996FB924, 0x27AE41E4, 0x649B934C, 0xA495991B,
      0x7852B855]"
  by (simp add: block_eval cong: bindE_weak_cong)

lemma hex_empty:
  "concat (map fmt08x
     [0xE3B0C442, 0x98FC1C14, 0x9AFBF4C8, 0x996FB924, 0x27AE41E4, 0x649B934C, 0xA495991B,
      0x7852B855]) =
     ''e3b0c44298fc1c149afbf4c8996fb92427ae41e4649b934ca495991b7852b855''"
proof -
  have e: "map fmt08x
     [0xE3B0C442, 0x98FC1C14, 0x9AFBF4C8, 0x996FB924, 0x27AE41E4, 0x649B934C, 0xA495991B,
      0x7852B855] =
     map spec_hex8
     [0xE3B0C442, 0x98FC1C14, 0x9AFBF4C8, 0x996FB924, 0x27AE41E4, 0x649B934C, 0xA495991B,
      0x7852B855]"
    by (simp add: fmt08x_word word32_def)
  show ?thesis unfolding e by (simp add: spec_hex8_def hex_digit_def upt_8)
qed

lemma sha256_empty:
  "sha256 ([] :: byte list) =
     Inr ''e3b0c44298fc1c149afbf4c8996fb92427ae41e4649b934ca495991b7852b855''"
  by (simp only: sha256_def padding_empty parse_empty sha256_hash_computation_def block_loop.simps
      block_empty bindE_Inr option.case hex_empty)

lemma zeros_abc:
  "replicate 52 (0x00 :: byte) =
     [0, 0, 0, 0, 0, 0, 0, 0, 0, 0, 0, 0, 0, 0, 0, 0, 0, 0, 0, 0, 0, 0, 0, 0, 0, 0, 0, 0, 0,
      0, 0, 0, 0, 0, 0, 0, 0, 0, 0, 0, 0, 0, 0, 0, 0, 0, 0, 0, 0, 0, 0, 0]"
  by (simp add: numeral_eq_Suc)

lemma length_field_abc: "length_field 3 = [0x00, 0x00, 0x00, 0x00, 0x00, 0x00, 0x00, 0x18]"
  by (simp add: length_field_def upt_conv_Cons)

lemma padding_abc:
  "padding msg_abc =
     Inr [0x61, 0x62, 0x63, 0x80, 0x00, 0x00, 0x00, 0x00, 0x00, 0x00, 0x00, 0x00, 0x00, 0x00,
      0x00, 0x00, 0x00, 0x00, 0x00, 0x00, 0x00, 0x00, 0x00, 0x00, 0x00, 0x00, 0x00, 0x00,
      0x00, 0x00, 0x00, 0x00, 0x00, 0x00, 0x00, 0x00, 0x00, 0x00, 0x00, 0x00, 0x00, 0x00,
      0x00, 0x00, 0x00, 0x00, 0x00, 0x00, 0x00, 0x00, 0x00, 0x00, 0x00, 0x00, 0x00, 0x00,
      0x00, 0x00, 0x00, 0x00, 0x00, 0x00, 0x00, 0x18]"
proof -
  have 1: "padding msg_abc
      = Inr (msg_abc @ [0x80] @ replicate (pad_gap (Suc (length msg_abc))) 0x00
             @ length_field (length msg_abc))"
    by (rule padding_value) (simp add: msg_abc_def)
  have 2: "length msg_abc = 3" by (simp add: msg_abc_def)
  have 3: "pad_gap (Suc 3) = 52" by (simp add: pad_gap_def)
  show ?thesis unfolding 1 2 3 zeros_abc length_field_abc by (simp add: msg_abc_def)
qed

lemma parse_abc:
  "parse_message
     [0x61, 0x62, 0x63, 0x80, 0x00, 0x00, 0x00, 0x00, 0x00, 0x00, 0x00, 0x00, 0x00, 0x00,
      0x00, 0x00, 0x00, 0x00, 0x00, 0x00, 0x00, 0x00, 0x00, 0x00, 0x00, 0x00, 0x00, 0x00,
      0x00, 0x00, 0x00, 0x00, 0x00, 0x00, 0x00, 0x00, 0x00, 0x00, 0x00, 0x00, 0x00, 0x00,
      0x00, 0x00, 0x00, 0x00, 0x00, 0x00, 0x00, 0x00, 0x00, 0x00, 0x00, 0x00, 0x00, 0x00,
      0x00, 0x00, 0x00, 0x00, 0x00, 0x00, 0x00, 0x18] =
     [[0x61626380, 0x00000000, 0x00000000, 0x00000000, 0x00000000, 0x00000000, 0x00000000,
      0x00000000, 0x00000000, 0x00000000, 0x00000000, 0x00000000, 0x00000000, 0x00000000,
      0x00000000, 0x00000018]]"
  by (simp add: parse_message_def range3_def py_slice_def from_bytes_big_def upt_conv_Cons)

lemma block_abc:
  "block_body H_init
     [0x61626380, 0x00000000, 0x00000000, 0x00000000, 0x00000000, 0x00000000, 0x00000000,
      0x00000000, 0x00000000, 0x00000000, 0x00000000, 0x00000000, 0x00000000, 0x00000000,
      0x00000000, 0x00000018] =
     Inr [0xBA7816BF, 0x8F01CFEA, 0x414140DE, 0x5DAE2223, 0xB00361A3, 0x96177A9C, 0xB410FF61,
      0xF20015AD]"
  by (simp add: block_eval cong: bindE_weak_cong)

lemma hex_abc:
  "concat (map fmt08x
     [0xBA7816BF, 0x8F01CFEA, 0x414140DE, 0x5DAE2223, 0xB00361A3, 0x96177A9C, 0xB410FF61,
      0xF20015AD]) =
     ''ba7816bf8f01cfea414140de5dae2223b00361a396177a9cb410ff61f20015ad''"
proof -
  have e: "map fmt08x
     [0xBA7816BF, 0x8F01CFEA, 0x414140DE, 0x5DAE2223, 0xB00361A3, 0x96177A9C, 0xB410FF61,
      0xF20015AD] =
     map spec_hex8
     [0xBA7816BF, 0x8F01CFEA, 0x414140DE, 0x5DAE2223, 0xB00361A3, 0x96177A9C, 0xB410FF61,
      0xF20015AD]"
    by (simp add: fmt08x_word word32_def)
  show ?thesis unfolding e by (simp add: spec_hex8_def hex_digit_def upt_8)
qed

lemma sha256_abc:
  "sha256 msg_abc =
     Inr ''ba7816bf8f01cfea414140de5dae2223b00361a396177a9cb410ff61f20015ad''"
  by (simp only: sha256_def padding_abc parse_abc sha256_hash_computation_def block_loop.simps
      block_abc bindE_Inr option.case hex_abc)

lemma zeros_nist56:
  "replicate 63 (0x00 :: byte) =
     [0, 0, 0, 0, 0, 0, 0, 0, 0, 0, 0, 0, 0, 0, 0, 0, 0, 0, 0, 0, 0, 0, 0, 0, 0, 0, 0, 0, 0,
      0, 0, 0, 0, 0, 0, 0, 0, 0, 0, 0, 0, 0, 0, 0, 0, 0, 0, 0, 0, 0, 0, 0, 0, 0, 0, 0, 0, 0,
      0, 0, 0, 0, 0]"
  by (simp add: numeral_eq_Suc)

lemma length_field_nist56: "length_field 56 = [0x00, 0x00, 0x00, 0x00, 0x00, 0x00, 0x01, 0xC0]"
  by (simp add: length_field_def upt_conv_Cons)

lemma padding_nist56:
  "padding msg_nist56 =
     Inr [0x61, 0x62, 0x63, 0x64, 0x62, 0x63, 0x64, 0x65, 0x63, 0x64, 0x65, 0x66, 0x64, 0x65,
      0x66, 0x67, 0x65, 0x66, 0x67, 0x68, 0x66, 0x67, 0x68, 0x69, 0x67, 0x68, 0x69, 0x6A,
      0x68, 0x69, 0x6A, 0x6B, 0x69, 0x6A, 0x6B, 0x6C, 0x6A, 0x6B, 0x6C, 0x6D, 0x6B, 0x6C,
      0x6D, 0x6E, 0x6C, 0x6D, 0x6E, 0x6F, 0x6D, 0x6E, 0x6F, 0x70, 0x6E, 0x6F, 0x70, 0x71,
      0x80, 0x00, 0x00, 0x00, 0x00, 0x00, 0x00, 0x00, 0x00, 0x00, 0x00, 0x00, 0x00, 0x00,
      0x00, 0x00, 0x00, 0x00, 0x00, 0x00, 0x00, 0x00, 0x00, 0x00, 0x00, 0x00, 0x00, 0x00,
      0x00, 0x00, 0x00, 0x00, 0x00, 0x00, 0x00, 0x00, 0x00, 0x00, 0x00, 0x00, 0x00, 0x00,
      0x00, 0x00, 0x00, 0x00, 0x00, 0x00, 0x00, 0x00, 0x00, 0x00, 0x00, 0x00, 0x00, 0x00,
      0x00, 0x00, 0x00, 0x00, 0x00, 0x00, 0x00, 0x00, 0x00, 0x00, 0x00, 0x00, 0x00, 0x00,
      0x01, 0xC0]"
proof -
  have 1: "padding msg_nist56
      = Inr (msg_nist56 @ [0x80] @ replicate (pad_gap (Suc (length msg_nist56))) 0x00
             @ length_field (length msg_nist56))"
    by (rule padding_value) (simp add: msg_nist56_def)
  have 2: "length msg_nist56 = 56" by (simp add: msg_nist56_def)
  have 3: "pad_gap (Suc 56) = 63" by (simp add: pad_gap_def)
  show ?thesis unfolding 1 2 3 zeros_nist56 length_field_nist56 by (simp add: msg_nist56_def)
qed

lemma parse_nist56:
  "parse_message
     [0x61, 0x62, 0x63, 0x64, 0x62, 0x63, 0x64, 0x65, 0x63, 0x64, 0x65, 0x66, 0x64, 0x65,
      0x66, 0x67, 0x65, 0x66, 0x67, 0x68, 0x66, 0x67, 0x68, 0x69, 0x67, 0x68, 0x69, 0x6A,
      0x68, 0x69, 0x6A, 0x6B, 0x69, 0x6A, 0x6B, 0x6C, 0x6A, 0x6B, 0x6C, 0x6D, 0x6B, 0x6C,
      0x6D, 0x6E, 0x6C, 0x6D, 0x6E, 0x6F, 0x6D, 0x6E, 0x6F, 0x70, 0x6E, 0x6F, 0x70, 0x71,
      0x80, 0x00, 0x00, 0x00, 0x00, 0x00, 0x00, 0x00, 0x00, 0x00, 0x00, 0x00, 0x00, 0x00,
      0x00, 0x00, 0x00, 0x00, 0x00, 0x00, 0x00, 0x00, 0x00, 0x00, 0x00, 0x00, 0x00, 0x00,
      0x00, 0x00, 0x00, 0x00, 0x00, 0x00, 0x00, 0x00, 0x00, 0x00, 0x00, 0x00, 0x00, 0x00,
      0x00, 0x00, 0x00, 0x00, 0x00, 0x00, 0x00, 0x00, 0x00, 0x00, 0x00, 0x00, 0x00, 0x00,
      0x00, 0x00, 0x00, 0x00, 0x00, 0x00, 0x00, 0x00, 0x00, 0x00, 0x00, 0x00, 0x00, 0x00,
      0x01, 0xC0] =
     [[0x61626364, 0x62636465, 0x63646566, 0x64656667, 0x65666768, 0x66676869, 0x6768696A,
      0x68696A6B, 0x696A6B6C, 0x6A6B6C6D, 0x6B6C6D6E, 0x6C6D6E6F, 0x6D6E6F70, 0x6E6F7071,
      0x80000000, 0x00000000],
      [0x00000000, 0x00000000, 0x00000000, 0x00000000, 0x00000000, 0x00000000, 0x00000000,
      0x00000000, 0x00000000, 0x00000000, 0x00000000, 0x00000000, 0x00000000, 0x00000000,
      0x00000000, 0x000001C0]]"
  by (simp add: parse_message_def range3_def py_slice_def from_bytes_big_def upt_conv_Cons)

lemma block_nist56:
  "block_body H_init
     [0x61626364, 0x62636465, 0x63646566, 0x64656667, 0x65666768, 0x66676869, 0x6768696A,
      0x68696A6B, 0x696A6B6C, 0x6A6B6C6D, 0x6B6C6D6E, 0x6C6D6E6F, 0x6D6E6F70, 0x6E6F7071,
      0x80000000, 0x00000000] =
     Inr [0x85E655D6, 0x417A1795, 0x3363376A, 0x624CDE5C, 0x76E09589, 0xCAC5F811, 0xCC4B32C1,
      0xF20E533A]"
  by (simp add: block_eval cong: bindE_weak_cong)

lemma hex_nist56:
  "concat (map fmt08x
     [0x85E655D6, 0x417A1795, 0x3363376A, 0x624CDE5C, 0x76E09589, 0xCAC5F811, 0xCC4B32C1,
      0xF20E533A]) =
     ''85e655d6417a17953363376a624cde5c76e09589cac5f811cc4b32c1f20e533a''"
proof -
  have e: "map fmt08x
     [0x85E655D6, 0x417A1795, 0x3363376A, 0x624CDE5C, 0x76E09589, 0xCAC5F811, 0xCC4B32C1,
      0xF20E533A] =
     map spec_hex8
     [0x85E655D6, 0x417A1795, 0x3363376A, 0x624CDE5C, 0x76E09589, 0xCAC5F811, 0xCC4B32C1,
      0xF20E533A]"
    by (simp add: fmt08x_word word32_def)
  show ?thesis unfolding e by (simp add: spec_hex8_def hex_digit_def upt_8)
qed

lemma sha256_nist56:
  "sha256 msg_nist56 =
     Inr ''85e655d6417a17953363376a624cde5c76e09589cac5f811cc4b32c1f20e533a''"
  by (simp only: sha256_def padding_nist56 parse_nist56 sha256_hash_computation_def block_loop.simps
      block_nist56 bindE_Inr option.case hex_nist56)

lemma block_nist56_second:
  "block_body
     [0x85E655D6, 0x417A1795, 0x3363376A, 0x624CDE5C, 0x76E09589, 0xCAC5F811, 0xCC4B32C1,
      0xF20E533A]
     [0x00000000, 0x00000000, 0x00000000, 0x00000000, 0x00000000, 0x00000000, 0x00000000,
      0x00000000, 0x00000000, 0x00000000, 0x00000000, 0x00000000, 0x00000000, 0x00000000,
      0x00000000, 0x000001C0] =
     Inr [0x248D6A61, 0xD20638B8, 0xE5C02693, 0x0C3E6039, 0xA33CE459, 0x64FF2167, 0xF6ECEDD4,
      0x19DB06C1]"
  by (simp add: block_eval cong: bindE_weak_cong)

lemma spec_fold_nist56:
  "spec_fold_blocks
     [[0x61626364, 0x62636465, 0x63646566, 0x64656667, 0x65666768, 0x66676869, 0x6768696A,
      0x68696A6B, 0x696A6B6C, 0x6A6B6C6D, 0x6B6C6D6E, 0x6C6D6E6F, 0x6D6E6F70, 0x6E6F7071,
      0x80000000, 0x00000000],
      [0x00000000, 0x00000000, 0x00000000, 0x00000000, 0x00000000, 0x00000000, 0x00000000,
      0x00000000, 0x00000000, 0x00000000, 0x00000000, 0x00000000, 0x00000000, 0x00000000,
      0x00000000, 0x000001C0]] =
     Inr [0x248D6A61, 0xD20638B8, 0xE5C02693, 0x0C3E6039, 0xA33CE459, 0x64FF2167, 0xF6ECEDD4,
      0x19DB06C1]"
  by (simp only: spec_fold_blocks_def foldE.simps block_nist56 block_nist56_second bindE_Inr)

lemma sha256_hash_computation_nist56:
  "sha256_hash_computation
     [[0x61626364, 0x62636465, 0x63646566, 0x64656667, 0x65666768, 0x66676869, 0x6768696A,
      0x68696A6B, 0x696A6B6C, 0x6A6B6C6D, 0x6B6C6D6E, 0x6C6D6E6F, 0x6D6E6F70, 0x6E6F7071,
      0x80000000, 0x00000000],
      [0x00000000, 0x00000000, 0x00000000, 0x00000000, 0x00000000, 0x00000000, 0x00000000,
      0x00000000, 0x00000000, 0x00000000, 0x00000000, 0x00000000, 0x00000000, 0x00000000,
      0x00000000, 0x000001C0]] =
     Inr (Some [0x85E655D6, 0x417A1795, 0x3363376A, 0x624CDE5C, 0x76E09589, 0xCAC5F811, 0xCC4B32C1,
      0xF20E533A])"
  by (simp only: sha256_hash_computation_def block_loop.simps block_nist56 bindE_Inr)

lemma first_block_only:
  "sha256_hash_computation (block # rest) = sha256_hash_computation [block]"
  by (simp add: sha256_hash_computation_def)

text \<open>
  Claim C1 does not hold of the program.  The \<^verbatim>\<open>return h\<close> of line 139 sits inside the
  loop over the blocks, so only the first block is folded: whatever follows it is ignored.
  For \<open>msg_nist56\<close>, whose padded form has two blocks, \<open>sha256\<close> returns the state after the
  first block, \<^verbatim>\<open>85e655d6...\<close>, where folding both blocks gives the published digest
  \<^verbatim>\<open>248d6a61...\<close>.
\<close>

theorem only_first_block_is_folded:
  "(\<forall>block rest. sha256_hash_computation (block # rest) = sha256_hash_computation [block])
   \<and> (\<exists>p. padding msg_nist56 = Inr p \<and> length (parse_message p) = 2
          \<and> sha256_hash_computation (parse_message p)
              = Inr (Some [0x85E655D6, 0x417A1795, 0x3363376A, 0x624CDE5C, 0x76E09589, 0xCAC5F811, 0xCC4B32C1,
                    0xF20E533A])
          \<and> spec_fold_blocks (parse_message p)
              = Inr [0x248D6A61, 0xD20638B8, 0xE5C02693, 0x0C3E6039, 0xA33CE459, 0x64FF2167, 0xF6ECEDD4,
                    0x19DB06C1])
   \<and> sha256 msg_nist56
       = Inr ''85e655d6417a17953363376a624cde5c76e09589cac5f811cc4b32c1f20e533a''
   \<and> sha256 msg_nist56
       \<noteq> Inr ''248d6a61d20638b8e5c026930c3e6039a33ce45964ff2167f6ecedd419db06c1''"
proof -
  let ?p = "[0x61, 0x62, 0x63, 0x64, 0x62, 0x63, 0x64, 0x65, 0x63, 0x64, 0x65, 0x66, 0x64, 0x65,
      0x66, 0x67, 0x65, 0x66, 0x67, 0x68, 0x66, 0x67, 0x68, 0x69, 0x67, 0x68, 0x69, 0x6A,
      0x68, 0x69, 0x6A, 0x6B, 0x69, 0x6A, 0x6B, 0x6C, 0x6A, 0x6B, 0x6C, 0x6D, 0x6B, 0x6C,
      0x6D, 0x6E, 0x6C, 0x6D, 0x6E, 0x6F, 0x6D, 0x6E, 0x6F, 0x70, 0x6E, 0x6F, 0x70, 0x71,
      0x80, 0x00, 0x00, 0x00, 0x00, 0x00, 0x00, 0x00, 0x00, 0x00, 0x00, 0x00, 0x00, 0x00,
      0x00, 0x00, 0x00, 0x00, 0x00, 0x00, 0x00, 0x00, 0x00, 0x00, 0x00, 0x00, 0x00, 0x00,
      0x00, 0x00, 0x00, 0x00, 0x00, 0x00, 0x00, 0x00, 0x00, 0x00, 0x00, 0x00, 0x00, 0x00,
      0x00, 0x00, 0x00, 0x00, 0x00, 0x00, 0x00, 0x00, 0x00, 0x00, 0x00, 0x00, 0x00, 0x00,
      0x00, 0x00, 0x00, 0x00, 0x00, 0x00, 0x00, 0x00, 0x00, 0x00, 0x00, 0x00, 0x00, 0x00,
      0x01, 0xC0] :: byte list"
  let ?blocks = "[[0x61626364, 0x62636465, 0x63646566, 0x64656667, 0x65666768, 0x66676869, 0x6768696A,
      0x68696A6B, 0x696A6B6C, 0x6A6B6C6D, 0x6B6C6D6E, 0x6C6D6E6F, 0x6D6E6F70, 0x6E6F7071,
      0x80000000, 0x00000000],
      [0x00000000, 0x00000000, 0x00000000, 0x00000000, 0x00000000, 0x00000000, 0x00000000,
      0x00000000, 0x00000000, 0x00000000, 0x00000000, 0x00000000, 0x00000000, 0x00000000,
      0x00000000, 0x000001C0]] :: int list list"
  have a: "padding msg_nist56 = Inr ?p" by (rule padding_nist56)
  have b: "parse_message ?p = ?blocks" by (rule parse_nist56)
  have c: "length (parse_message ?p) = 2" unfolding b by simp
  have d: "sha256_hash_computation (parse_message ?p)
      = Inr (Some [0x85E655D6, 0x417A1795, 0x3363376A, 0x624CDE5C, 0x76E09589, 0xCAC5F811, 0xCC4B32C1,
                    0xF20E533A])"
    unfolding b by (rule sha256_hash_computation_nist56)
  have e: "spec_fold_blocks (parse_message ?p)
      = Inr [0x248D6A61, 0xD20638B8, 0xE5C02693, 0x0C3E6039, 0xA33CE459, 0x64FF2167, 0xF6ECEDD4,
                    0x19DB06C1]"
    unfolding b by (rule spec_fold_nist56)
  have f: "sha256_hash_computation (block # rest) = sha256_hash_computation [block]" for block rest
    by (rule first_block_only)
  show ?thesis
    by (intro conjI allI exI [of _ ?p] a c d e f) (simp_all add: sha256_nist56)
qed

text \<open>
  Claim C2, as the program has it.  The two digest strings of the claim have 63
  characters and are not what \<open>sha256\<close> returns.  It returns the digests below, the
  standard's, of 64 hex characters each.
\<close>

theorem sha256_known_answers:
  "sha256 [] = Inr ''e3b0c44298fc1c149afbf4c8996fb92427ae41e4649b934ca495991b7852b855''
   \<and> sha256 msg_abc = Inr ''ba7816bf8f01cfea414140de5dae2223b00361a396177a9cb410ff61f20015ad''
   \<and> length ''e3b0c44298fc1c149afbf4c8996fb92427ae41e4649b934ca495991b7852b855'' = 64
   \<and> length ''ba7816bf8f01cfea414140de5dae2223b00361a396177a9cb410ff61f20015ad'' = 64"
  by (simp add: sha256_empty sha256_abc)

theorem sha256_known_answers_counterexample:
  "sha256 [] \<noteq> Inr ''e3b0c44298fc1c149afbf4c8996fb92427ae41e4649b934ca495991b7852b85''
   \<and> sha256 msg_abc \<noteq> Inr ''ba7816bf8f01cfea414140de5dae2223b00361a39617829b8a0c5c85a5f5c5c''
   \<and> length ''e3b0c44298fc1c149afbf4c8996fb92427ae41e4649b934ca495991b7852b85'' = 63
   \<and> length ''ba7816bf8f01cfea414140de5dae2223b00361a39617829b8a0c5c85a5f5c5c'' = 63"
  by (simp add: sha256_empty sha256_abc)

end
